theory Spec2Isabelle
  imports Complex_Main "HOL-Library.Multiset" "HOL-Library.Sublist"
begin

section \<open>Data model\<close>

text \<open>
  \<^verbatim>\<open>LogEntry\<close> is the only entity of the application: an object with the two numeric
  fields \<^verbatim>\<open>id\<close> and \<^verbatim>\<open>timestamp\<close> (milliseconds since the epoch, as \<^verbatim>\<open>Date.now()\<close>
  returns them). The field \<^verbatim>\<open>id\<close> is called \<open>id_entry\<close> here, because \<open>id\<close> is the
  identity function of HOL. The numbers are integers: time values of valid dates, as the
  clock gives them (for a number that is no time value \<^verbatim>\<open>toISOString\<close> would throw, which
  is outside this model).
\<close>

record LogEntry =
  id_entry :: int
  timestamp :: int

text \<open>The exceptions that the modelled code can meet; each is a value.\<close>

datatype error = SecurityError | QuotaExceededError | SyntaxError | TypeError

section \<open>The host: local storage and JSON\<close>

text \<open>
  \<^verbatim>\<open>window.localStorage\<close> is a string-to-string dictionary whose operations may throw
  (storage disabled, quota exceeded). Whether a call throws is decided by the host, so the
  model carries that decision as two functions of the call's arguments. An exception of
  the access \<^verbatim>\<open>window.localStorage\<close> itself counts as an exception of the call.
\<close>

record localStorage =
  items :: "string \<rightharpoonup> string"
  getItem_error :: "string \<Rightarrow> error option"
  setItem_error :: "string \<Rightarrow> string \<Rightarrow> error option"

definition getItem :: "localStorage \<Rightarrow> string \<Rightarrow> error + string option" where
  "getItem ls key =
     (case getItem_error ls key of
        Some e \<Rightarrow> Inl e
      | None \<Rightarrow> Inr (items ls key))"

definition setItem :: "localStorage \<Rightarrow> string \<Rightarrow> string \<Rightarrow> error + localStorage" where
  "setItem ls key v =
     (case setItem_error ls key v of
        Some e \<Rightarrow> Inl e
      | None \<Rightarrow> Inr (ls\<lparr>items := (items ls)(key \<mapsto> v)\<rparr>))"

text \<open>
  \<^verbatim>\<open>JSON.parse\<close> and \<^verbatim>\<open>JSON.stringify\<close> belong to the host as well. The hook is generic in
  the type \<^verbatim>\<open>T\<close> of the stored value, and so is the codec: \<open>parse\<close> either throws or
  yields a value of that type (a text that parses to a value of another type, which the
  hook would return as it is, is excluded by the type).
\<close>

record 'a JSON =
  parse :: "string \<Rightarrow> error + 'a"
  stringify :: "'a \<Rightarrow> error + string"

section \<open>The hook \<^verbatim>\<open>useLocalStorage\<close>\<close>

text \<open>
  The state of one use of the hook: the React state \<^verbatim>\<open>storedValue\<close>, the host's
  \<^verbatim>\<open>window\<close> (\<open>None\<close> when \<^verbatim>\<open>typeof window === 'undefined'\<close>) and what has been written
  with \<^verbatim>\<open>console.error\<close>.
\<close>

record 'a hook =
  storedValue :: 'a
  window :: "localStorage option"
  console :: "error list"

text \<open>
  The \<^verbatim>\<open>try\<close> block of the state initializer:
  \<^verbatim>\<open>const item = window.localStorage.getItem(key);
  return item ? JSON.parse(item) : initialValue;\<close>
  A string is falsy exactly when it is empty; \<^verbatim>\<open>null\<close> (no such key) is falsy too.
\<close>

definition read_item :: "'a JSON \<Rightarrow> localStorage \<Rightarrow> string \<Rightarrow> 'a \<Rightarrow> error + 'a" where
  "read_item J ls key initialValue =
     (case getItem ls key of
        Inl e \<Rightarrow> Inl e
      | Inr item \<Rightarrow>
          (case item of
             None \<Rightarrow> Inr initialValue
           | Some s \<Rightarrow> if s = [] then Inr initialValue else parse J s))"

text \<open>
  The initializer itself. Its result is the exception that leaves it, or the initial
  state of the hook; the \<^verbatim>\<open>catch\<close> branch logs the error and returns \<^verbatim>\<open>initialValue\<close>.
\<close>

definition useLocalStorage ::
  "'a JSON \<Rightarrow> localStorage option \<Rightarrow> string \<Rightarrow> 'a \<Rightarrow> error + 'a hook" where
  "useLocalStorage J w key initialValue =
     (case w of
        None \<Rightarrow> Inr \<lparr>storedValue = initialValue, window = w, console = []\<rparr>
      | Some ls \<Rightarrow>
          (case read_item J ls key initialValue of
             Inl e \<Rightarrow> Inr \<lparr>storedValue = initialValue, window = w, console = [e]\<rparr>
           | Inr v \<Rightarrow> Inr \<lparr>storedValue = v, window = w, console = []\<rparr>))"

text \<open>
  \<^verbatim>\<open>setValue\<close> takes a value or an updater function
  (\<^verbatim>\<open>value instanceof Function ? value(storedValue) : value\<close>).
\<close>

datatype 'a SetStateAction = Value 'a | Updater "'a \<Rightarrow> 'a"

fun valueToStore :: "'a SetStateAction \<Rightarrow> 'a \<Rightarrow> 'a" where
  "valueToStore (Value v) s = v"
| "valueToStore (Updater f) s = f s"

text \<open>
  The \<^verbatim>\<open>try\<close> block of \<^verbatim>\<open>setValue\<close>: the React state is set first, then the value is
  serialized and written. An exception leaves the block with the state as it is at that
  moment, so the block returns the state together with the exception, if any.
\<close>

definition setValue_try :: "'a JSON \<Rightarrow> string \<Rightarrow> 'a SetStateAction \<Rightarrow> 'a hook \<Rightarrow> error option \<times> 'a hook" where
  "setValue_try J key value h =
     (let v = valueToStore value (storedValue h);
          h1 = h\<lparr>storedValue := v\<rparr>
      in case window h1 of
           None \<Rightarrow> (None, h1)
         | Some ls \<Rightarrow>
             (case stringify J v of
                Inl e \<Rightarrow> (Some e, h1)
              | Inr s \<Rightarrow>
                  (case setItem ls key s of
                     Inl e \<Rightarrow> (Some e, h1)
                   | Inr ls' \<Rightarrow> (None, h1\<lparr>window := Some ls'\<rparr>))))"

text \<open>
  \<^verbatim>\<open>setValue\<close>: the \<^verbatim>\<open>catch\<close> branch writes the error to the console and returns
  normally. The first component of the result is the exception that reaches the caller.
\<close>

definition setValue :: "'a JSON \<Rightarrow> string \<Rightarrow> 'a SetStateAction \<Rightarrow> 'a hook \<Rightarrow> error option \<times> 'a hook" where
  "setValue J key value h =
     (case setValue_try J key value h of
        (Some e, h') \<Rightarrow> (None, h'\<lparr>console := console h' @ [e]\<rparr>)
      | (None, h') \<Rightarrow> (None, h'))"

section \<open>The application\<close>

text \<open>
  The transient notifications. The application shows them as Spanish sentences, some
  between exclamation marks; the constructors stand for the five sentences that the
  modelled handlers pass to \<^verbatim>\<open>showToast\<close>: that the record is saved, that there is nothing
  to copy (\<^verbatim>\<open>"No hay nada que copiar."\<close>), that the text is copied, that copying failed
  (\<^verbatim>\<open>"Error al copiar."\<close>) and that the log is deleted (\<^verbatim>\<open>"Registro borrado."\<close>). The
  timer that removes the toast after two seconds is not modelled.
\<close>

datatype toast =
  Registro_guardado
| No_hay_nada_que_copiar
| Copiado_al_portapapeles
| Error_al_copiar
| Registro_borrado

text \<open>
  The state of \<^verbatim>\<open>App\<close>: the hook that holds the log under the key \<^verbatim>\<open>'urinationLog'\<close>
  (the state \<^verbatim>\<open>log\<close> of the source is \<open>storedValue (log_hook a)\<close>; \<open>log\<close> is the logarithm
  of HOL), the toast, the entries of the selected day, and the last text that
  \<^verbatim>\<open>navigator.clipboard.writeText\<close> accepted. Each handler runs on the state of the latest
  render: the callbacks are rebuilt whenever \<^verbatim>\<open>setLog\<close> is, which is at every render.
\<close>

record App =
  log_hook :: "LogEntry list hook"
  toastMessage :: "toast option"
  selectedDayData :: "LogEntry list option"
  clipboard :: "string option"

definition log_key :: string where
  "log_key = ''urinationLog''"

text \<open>
  The first render of \<^verbatim>\<open>App\<close>: \<^verbatim>\<open>useLocalStorage<LogEntry[]>('urinationLog', [])\<close>, no
  toast, no selected day.
\<close>

definition App_start :: "LogEntry list JSON \<Rightarrow> localStorage option \<Rightarrow> error + App" where
  "App_start J w =
     (case useLocalStorage J w log_key [] of
        Inl e \<Rightarrow> Inl e
      | Inr h \<Rightarrow> Inr \<lparr>log_hook = h, toastMessage = None, selectedDayData = None, clipboard = None\<rparr>)"

definition setLog ::
  "LogEntry list JSON \<Rightarrow> LogEntry list SetStateAction \<Rightarrow> App \<Rightarrow> error option \<times> App" where
  "setLog J value a =
     (case setValue J log_key value (log_hook a) of
        (exn, h) \<Rightarrow> (exn, a\<lparr>log_hook := h\<rparr>))"

definition showToast :: "toast \<Rightarrow> App \<Rightarrow> App" where
  "showToast message a = a\<lparr>toastMessage := Some message\<rparr>"

text \<open>
  \<^verbatim>\<open>setLog(prevLog => [{ id: Date.now(), timestamp: Date.now() }, ...prevLog]);
  showToast(...);\<close>
  The clock is read twice, first for \<^verbatim>\<open>id\<close> and then for \<^verbatim>\<open>timestamp\<close>; the two readings
  are the arguments \<open>t_id\<close> and \<open>t_ts\<close>. (The second version of \<^verbatim>\<open>App\<close> builds
  \<^verbatim>\<open>newEntry\<close> first, with the same two readings in the same order.)
\<close>

definition handleLogUrination ::
  "LogEntry list JSON \<Rightarrow> int \<Rightarrow> int \<Rightarrow> App \<Rightarrow> error option \<times> App" where
  "handleLogUrination J t_id t_ts a =
     (case setLog J (Updater (\<lambda>prevLog. \<lparr>id_entry = t_id, timestamp = t_ts\<rparr> # prevLog)) a of
        (Some e, a') \<Rightarrow> (Some e, a')
      | (None, a') \<Rightarrow> (None, showToast Registro_guardado a'))"

text \<open>
  A run of the handler, once for every pair of clock readings of the list, in order. It
  stops at the first exception, as a sequence of calls would.
\<close>

fun handleLogUrination_run ::
  "LogEntry list JSON \<Rightarrow> (int \<times> int) list \<Rightarrow> App \<Rightarrow> error option \<times> App" where
  "handleLogUrination_run J [] a = (None, a)"
| "handleLogUrination_run J ((t_id, t_ts) # ts) a =
     (case handleLogUrination J t_id t_ts a of
        (Some e, a') \<Rightarrow> (Some e, a')
      | (None, a') \<Rightarrow> handleLogUrination_run J ts a')"

text \<open>
  \<^verbatim>\<open>if (window.confirm(...)) { setLog([]); showToast(...); }\<close>
  The answer of the user to \<^verbatim>\<open>window.confirm\<close> is the argument \<open>confirmed\<close>.
\<close>

definition handleClearLog :: "LogEntry list JSON \<Rightarrow> bool \<Rightarrow> App \<Rightarrow> error option \<times> App" where
  "handleClearLog J confirmed a =
     (if confirmed then
        (case setLog J (Value []) a of
           (Some e, a') \<Rightarrow> (Some e, a')
         | (None, a') \<Rightarrow> (None, showToast Registro_borrado a'))
      else (None, a))"

subsection \<open>Formatting\<close>

text \<open>
  \<^verbatim>\<open>formatTimestamp(timestamp, options)\<close> is
  \<^verbatim>\<open>new Intl.DateTimeFormat('es-ES', options).format(new Date(timestamp))\<close>: a function of
  the host (its time zone and locale data). The option objects that the modelled code
  passes are the constructors of \<open>options\<close>.
\<close>

datatype options =
  Day_heading     \<comment> \<open>\<^verbatim>\<open>{ year: 'numeric', month: 'long', day: 'numeric', weekday: 'long' }\<close>\<close>
| Bar_label       \<comment> \<open>\<^verbatim>\<open>{ day: 'numeric', month: 'short' }\<close>\<close>
| DateStyle_full  \<comment> \<open>\<^verbatim>\<open>{ dateStyle: 'full' }\<close>\<close>
| TimeStyle_medium \<comment> \<open>\<^verbatim>\<open>{ timeStyle: 'medium' }\<close>\<close>

text \<open>
  What the code needs of the host's dates: the formatter, \<^verbatim>\<open>setHours(0,0,0,0)\<close> (the epoch
  milliseconds of the local midnight of a moment) and \<^verbatim>\<open>toISOString()\<close>.
\<close>

record host =
  DateTimeFormat :: "options \<Rightarrow> int \<Rightarrow> string"
  setHours0 :: "int \<Rightarrow> int"
  toISOString :: "int \<Rightarrow> string"

definition formatTimestamp :: "host \<Rightarrow> int \<Rightarrow> options \<Rightarrow> string" where
  "formatTimestamp H t opts = DateTimeFormat H opts t"

text \<open>\<^verbatim>\<open>Array.prototype.join\<close> on an array of strings.\<close>

fun join :: "string \<Rightarrow> string list \<Rightarrow> string" where
  "join sep [] = []"
| "join sep [x] = x"
| "join sep (x # y # ys) = x @ sep @ join sep (y # ys)"

subsection \<open>Copying the log\<close>

definition entry_line :: "host \<Rightarrow> LogEntry \<Rightarrow> string" where
  "entry_line H entry =
     formatTimestamp H (timestamp entry) DateStyle_full @ '' - '' @
     formatTimestamp H (timestamp entry) TimeStyle_medium"

definition textToCopy :: "host \<Rightarrow> LogEntry list \<Rightarrow> string" where
  "textToCopy H entries = join [CHR 0x0A] (map (entry_line H) entries)"

text \<open>
  \<^verbatim>\<open>handleCopyToClipboard\<close>. Whether the promise of \<^verbatim>\<open>writeText\<close> is fulfilled or
  rejected is the argument \<open>written\<close>.
\<close>

definition handleCopyToClipboard :: "host \<Rightarrow> bool \<Rightarrow> App \<Rightarrow> App" where
  "handleCopyToClipboard H written a =
     (if length (storedValue (log_hook a)) = 0 then showToast No_hay_nada_que_copiar a
      else
        (let t = textToCopy H (storedValue (log_hook a))
         in if written then showToast Copiado_al_portapapeles (a\<lparr>clipboard := Some t\<rparr>)
            else showToast Error_al_copiar a))"

subsection \<open>The list view \<^verbatim>\<open>LogList\<close>\<close>

text \<open>
  \<^verbatim>\<open>groupedEntries\<close> is built by a \<^verbatim>\<open>reduce\<close> over the entries into an object whose keys
  are the formatted days. The keys of an object are enumerated in the order of their
  insertion (the formatted days are not array indices), so the object is an association
  list in that order. One step of the reduction:
  \<^verbatim>\<open>if (!acc[date]) { acc[date] = []; }  acc[date].push(entry);\<close>
\<close>

fun push_entry ::
  "string \<Rightarrow> LogEntry \<Rightarrow> (string \<times> LogEntry list) list \<Rightarrow> (string \<times> LogEntry list) list" where
  "push_entry d entry [] = [(d, [entry])]"
| "push_entry d entry ((k, es) # acc) =
     (if k = d then (k, es @ [entry]) # acc else (k, es) # push_entry d entry acc)"

definition day_heading :: "host \<Rightarrow> LogEntry \<Rightarrow> string" where
  "day_heading H entry = formatTimestamp H (timestamp entry) Day_heading"

definition groupedEntries :: "host \<Rightarrow> LogEntry list \<Rightarrow> (string \<times> LogEntry list) list" where
  "groupedEntries H entries =
     foldl (\<lambda>acc entry. push_entry (day_heading H entry) entry acc) [] entries"

text \<open>\<^verbatim>\<open>groupedEntries[date]\<close>; a missing key would give \<^verbatim>\<open>undefined\<close>, here \<open>None\<close>.\<close>

definition bucket :: "(string \<times> LogEntry list) list \<Rightarrow> string \<Rightarrow> LogEntry list option" where
  "bucket acc d = map_of acc d"

text \<open>
  \<^verbatim>\<open>Array.prototype.sort\<close> is stable, and with a comparator \<^verbatim>\<open>(a, b) => f(b) - f(a)\<close> on
  integers it sorts by \<open>f\<close>, descending; with \<^verbatim>\<open>f(a) - f(b)\<close>, ascending. The stable
  insertion sort \<^const>\<open>sort_key\<close> of HOL is its model.
\<close>

definition sort_descending :: "('a \<Rightarrow> int) \<Rightarrow> 'a list \<Rightarrow> 'a list" where
  "sort_descending f xs = sort_key (\<lambda>x. - f x) xs"

definition sort_ascending :: "('a \<Rightarrow> int) \<Rightarrow> 'a list \<Rightarrow> 'a list" where
  "sort_ascending f xs = sort_key f xs"

text \<open>
  \<^verbatim>\<open>groupedEntries[a][0].timestamp\<close>, the sort key of a day in \<^verbatim>\<open>sortedDates\<close>: the
  timestamp of the entry that was pushed first. Reading it from a missing or empty bucket
  would throw; the reduction builds no such bucket (lemma \<open>groupedEntries_nonempty\<close>).
\<close>

definition first_timestamp :: "(string \<times> LogEntry list) list \<Rightarrow> string \<Rightarrow> int" where
  "first_timestamp acc d = timestamp (hd (the (bucket acc d)))"

definition sortedDates :: "(string \<times> LogEntry list) list \<Rightarrow> string list" where
  "sortedDates acc = sort_descending (first_timestamp acc) (map fst acc)"

text \<open>
  What is rendered: for each day of \<^verbatim>\<open>sortedDates\<close>, in that order, the heading and
  \<^verbatim>\<open>groupedEntries[date].sort((a, b) => b.timestamp - a.timestamp)\<close>. The memo
  \<^verbatim>\<open>sortedDates\<close> is computed before the buckets are sorted.
\<close>

definition LogList :: "host \<Rightarrow> LogEntry list \<Rightarrow> (string \<times> LogEntry list) list" where
  "LogList H entries =
     (let acc = groupedEntries H entries
      in map (\<lambda>d. (d, sort_descending timestamp (the (bucket acc d)))) (sortedDates acc))"

subsection \<open>The chart \<^verbatim>\<open>LogChart\<close>\<close>

datatype ChartPeriod = Week | Month | All_entries

definition oneDay :: int where
  "oneDay = 1000 * 60 * 60 * 24"

text \<open>
  The filter of \<^verbatim>\<open>filteredEntries\<close>:
  \<^verbatim>\<open>(now.getTime() - entry.timestamp) / oneDay < 7\<close> for \<^verbatim>\<open>'week'\<close>, \<^verbatim>\<open>< 30\<close> for
  \<^verbatim>\<open>'month'\<close>, \<^verbatim>\<open>true\<close> otherwise. The quotient is a rational number here: the difference
  is an integer, 7 and 30 are exact, and no quotient below them rounds up to them, so the
  comparison of the rounded quotient has the same result.
\<close>

definition in_period :: "ChartPeriod \<Rightarrow> int \<Rightarrow> LogEntry \<Rightarrow> bool" where
  "in_period period now entry =
     (if period = Week then (of_int (now - timestamp entry) :: rat) / of_int oneDay < 7
      else if period = Month then (of_int (now - timestamp entry) :: rat) / of_int oneDay < 30
      else True)"

definition filteredEntries :: "ChartPeriod \<Rightarrow> int \<Rightarrow> LogEntry list \<Rightarrow> LogEntry list" where
  "filteredEntries period now entries = filter (in_period period now) entries"

text \<open>
  The key of a day in the chart and in the drill-down:
  \<^verbatim>\<open>date.setHours(0, 0, 0, 0); date.toISOString().split('T')[0]\<close>.
\<close>

definition midnight :: "host \<Rightarrow> LogEntry \<Rightarrow> int" where
  "midnight H entry = setHours0 H (timestamp entry)"

definition dateString :: "host \<Rightarrow> LogEntry \<Rightarrow> string" where
  "dateString H entry = takeWhile (\<lambda>c. c \<noteq> CHR ''T'') (toISOString H (midnight H entry))"

text \<open>
  One step of the reduction \<^verbatim>\<open>countsByDay\<close>:
  \<^verbatim>\<open>if (!acc[dateString]) { acc[dateString] = { count: 0, date: date }; }
  acc[dateString].count++;\<close>
\<close>

fun count_entry ::
  "string \<Rightarrow> int \<Rightarrow> (string \<times> nat \<times> int) list \<Rightarrow> (string \<times> nat \<times> int) list" where
  "count_entry s d [] = [(s, (0 + 1, d))]"
| "count_entry s d ((k, (c, d')) # acc) =
     (if k = s then (k, (c + 1, d')) # acc else (k, (c, d')) # count_entry s d acc)"

definition countsByDay :: "host \<Rightarrow> LogEntry list \<Rightarrow> (string \<times> nat \<times> int) list" where
  "countsByDay H entries =
     foldl (\<lambda>acc entry. count_entry (dateString H entry) (midnight H entry) acc) [] entries"

record bin =
  label :: string
  value_bin :: nat
  date :: int
  fullDate :: string

definition chartData :: "host \<Rightarrow> int \<Rightarrow> ChartPeriod \<Rightarrow> LogEntry list \<Rightarrow> bin list" where
  "chartData H now period entries =
     sort_ascending date
       (map (\<lambda>(s, (c, d)).
               \<lparr>label = formatTimestamp H d Bar_label, value_bin = c, date = d, fullDate = s\<rparr>)
            (countsByDay H (filteredEntries period now entries)))"

text \<open>
  The scale of the vertical axis.
  \<^verbatim>\<open>const maxValue = Math.max(...chartData.map(d => d.value), 0);
  const yAxisTop = maxValue <= 5 ? maxValue : Math.ceil(maxValue / 5) * 5;
  const numTicks = yAxisTop > 0 ? Math.min(yAxisTop, 5) : 0;
  const yAxisLabels = yAxisTop > 0
    ? Array.from({ length: numTicks + 1 }, (_, i) => Math.round((yAxisTop / numTicks) * i))
    : [0];\<close>
  Quotients are rational numbers; \<^verbatim>\<open>Math.round\<close> rounds half up. (The quotient by 5 is
  an integer or at least a fifth away from one, and the labels are integers, so rounding
  the quotients changes nothing.)
\<close>

definition maxValue :: "nat list \<Rightarrow> int" where
  "maxValue vs = foldr max (map int vs) 0"

definition yAxisTop :: "int \<Rightarrow> int" where
  "yAxisTop m = (if m \<le> 5 then m else \<lceil>(of_int m :: rat) / 5\<rceil> * 5)"

definition numTicks :: "int \<Rightarrow> int" where
  "numTicks y = (if y > 0 then min y 5 else 0)"

definition Math_round :: "rat \<Rightarrow> int" where
  "Math_round x = \<lfloor>x + 1 / 2\<rfloor>"

definition yAxisLabels :: "int \<Rightarrow> int list" where
  "yAxisLabels y =
     (if y > 0
      then map (\<lambda>i. Math_round ((of_int y / of_int (numTicks y)) * of_nat i))
             [0 ..< nat (numTicks y + 1)]
      else [0])"

subsection \<open>The drill-down\<close>

text \<open>
  \<^verbatim>\<open>handleBarClick\<close>: the entries of the log whose day key is the key of the bar.
\<close>

definition dayEntries :: "host \<Rightarrow> string \<Rightarrow> LogEntry list \<Rightarrow> LogEntry list" where
  "dayEntries H s entries = filter (\<lambda>entry. dateString H entry = s) entries"

definition handleBarClick :: "host \<Rightarrow> string \<Rightarrow> App \<Rightarrow> App" where
  "handleBarClick H s a = a\<lparr>selectedDayData := Some (dayEntries H s (storedValue (log_hook a)))\<rparr>"

section \<open>An example host\<close>

text \<open>
  The theorems below hold for every host. Closed examples need one: a codec that writes
  an array of entries as \<^verbatim>\<open>JSON.stringify\<close> does and reads exactly that compact form
  back (\<^verbatim>\<open>JSON.parse\<close> accepts more texts), and dates in the time zone UTC, printed with
  digits instead of the words of the Spanish locale.
\<close>

definition digit_char :: "nat \<Rightarrow> char" where
  "digit_char n = ''0123456789'' ! (n mod 10)"

fun nat_digits :: "nat \<Rightarrow> string" where
  "nat_digits n = (if n < 10 then [digit_char n] else nat_digits (n div 10) @ [digit_char n])"

declare nat_digits.simps [simp del]

definition int_digits :: "int \<Rightarrow> string" where
  "int_digits i = (if i < 0 then CHR ''-'' # nat_digits (nat (- i)) else nat_digits (nat i))"

definition entry_text :: "LogEntry \<Rightarrow> string" where
  \<open>entry_text e =
     ''{"id":'' @ int_digits (id_entry e) @ '',"timestamp":'' @ int_digits (timestamp e) @ ''}''\<close>

definition entries_text :: "LogEntry list \<Rightarrow> string" where
  "entries_text es = ''['' @ join '','' (map entry_text es) @ '']''"

definition is_digit :: "char \<Rightarrow> bool" where
  "is_digit c = (c \<in> set ''0123456789'')"

definition digit_value :: "char \<Rightarrow> nat" where
  "digit_value c = length (takeWhile (\<lambda>d. d \<noteq> c) ''0123456789'')"

definition read_nat :: "string \<Rightarrow> (nat \<times> string) option" where
  "read_nat s =
     (let ds = takeWhile is_digit s
      in if ds = [] then None
         else Some (foldl (\<lambda>n c. 10 * n + digit_value c) 0 ds, dropWhile is_digit s))"

definition read_int :: "string \<Rightarrow> (int \<times> string) option" where
  "read_int s =
     (case s of
        [] \<Rightarrow> None
      | c # r \<Rightarrow>
          if c = CHR ''-'' then map_option (\<lambda>(n, r'). (- int n, r')) (read_nat r)
          else map_option (\<lambda>(n, r'). (int n, r')) (read_nat s))"

fun expect :: "string \<Rightarrow> string \<Rightarrow> string option" where
  "expect [] s = Some s"
| "expect (c # cs) [] = None"
| "expect (c # cs) (d # ds) = (if c = d then expect cs ds else None)"

definition read_entry :: "string \<Rightarrow> (LogEntry \<times> string) option" where
  \<open>read_entry s =
     (case expect ''{"id":'' s of
        None \<Rightarrow> None
      | Some s1 \<Rightarrow>
     (case read_int s1 of
        None \<Rightarrow> None
      | Some (i, s2) \<Rightarrow>
     (case expect '',"timestamp":'' s2 of
        None \<Rightarrow> None
      | Some s3 \<Rightarrow>
     (case read_int s3 of
        None \<Rightarrow> None
      | Some (t, s4) \<Rightarrow>
     (case expect ''}'' s4 of
        None \<Rightarrow> None
      | Some s5 \<Rightarrow> Some (\<lparr>id_entry = i, timestamp = t\<rparr>, s5))))))\<close>

text \<open>The entries after the first, up to the closing bracket; \<open>n\<close> bounds their number.\<close>

fun read_more :: "nat \<Rightarrow> string \<Rightarrow> LogEntry list option" where
  "read_more 0 s = (if s = '']'' then Some [] else None)"
| "read_more (Suc n) s =
     (if s = '']'' then Some []
      else case expect '','' s of
             None \<Rightarrow> None
           | Some s1 \<Rightarrow>
               (case read_entry s1 of
                  None \<Rightarrow> None
                | Some (e, s2) \<Rightarrow> map_option ((#) e) (read_more n s2)))"

definition read_entries :: "string \<Rightarrow> error + LogEntry list" where
  "read_entries s =
     (if s = ''[]'' then Inr []
      else case expect ''['' s of
             None \<Rightarrow> Inl SyntaxError
           | Some s1 \<Rightarrow>
               (case read_entry s1 of
                  None \<Rightarrow> Inl SyntaxError
                | Some (e, s2) \<Rightarrow>
                    (case read_more (length s2) s2 of
                       None \<Rightarrow> Inl SyntaxError
                     | Some es \<Rightarrow> Inr (e # es))))"

definition example_JSON :: "LogEntry list JSON" where
  "example_JSON = \<lparr>parse = read_entries, stringify = (\<lambda>es. Inr (entries_text es))\<rparr>"

text \<open>
  The civil date of a day number (days since 1970-01-01), by the usual computation in
  eras of 400 years that begin on a first of March.
\<close>

definition civil_from_days :: "int \<Rightarrow> int \<times> int \<times> int" where
  "civil_from_days z0 =
     (let z = z0 + 719468;
          era = z div 146097;
          doe = z mod 146097;
          yoe = (doe - doe div 1460 + doe div 36524 - doe div 146096) div 365;
          doy = doe - (365 * yoe + yoe div 4 - yoe div 100);
          mp = (5 * doy + 2) div 153;
          d = doy - (153 * mp + 2) div 5 + 1;
          m = (if mp < 10 then mp + 3 else mp - 9);
          y = yoe + era * 400 + (if m \<le> 2 then 1 else 0)
      in (y, m, d))"

definition pad :: "nat \<Rightarrow> int \<Rightarrow> string" where
  "pad w i = (let ds = nat_digits (nat i) in replicate (w - length ds) (CHR ''0'') @ ds)"

definition iso_date :: "int \<Rightarrow> string" where
  "iso_date t =
     (case civil_from_days (t div oneDay) of
        (y, m, d) \<Rightarrow> pad 4 y @ ''-'' @ pad 2 m @ ''-'' @ pad 2 d)"

definition iso_time :: "int \<Rightarrow> string" where
  "iso_time t =
     (let ms = t mod oneDay
      in pad 2 (ms div 3600000) @ '':'' @ pad 2 (ms div 60000 mod 60) @ '':'' @
         pad 2 (ms div 1000 mod 60))"

definition example_host :: host where
  "example_host =
     \<lparr>DateTimeFormat =
        (\<lambda>opts t. case opts of
           Day_heading \<Rightarrow> iso_date t
         | Bar_label \<Rightarrow> drop 5 (iso_date t)
         | DateStyle_full \<Rightarrow> iso_date t
         | TimeStyle_medium \<Rightarrow> iso_time t),
      setHours0 = (\<lambda>t. t - t mod oneDay),
      toISOString = (\<lambda>t. iso_date t @ ''T'' @ iso_time t @ ''.'' @ pad 3 (t mod 1000) @ ''Z'')\<rparr>"


text \<open>A state of the application for closed examples: an empty log and no \<^verbatim>\<open>window\<close>.\<close>

definition example_App :: App where
  "example_App =
     \<lparr>log_hook = \<lparr>storedValue = [], window = None, console = []\<rparr>,
      toastMessage = None, selectedDayData = None, clipboard = None\<rparr>"

text \<open>
  Two storages that already hold a log of one entry: one that accepts every call, and one
  whose calls all throw.
\<close>

definition working_storage :: localStorage where
  "working_storage =
     \<lparr>items = [log_key \<mapsto> entries_text [\<lparr>id_entry = 7, timestamp = 7\<rparr>]],
      getItem_error = (\<lambda>key. None),
      setItem_error = (\<lambda>key v. None)\<rparr>"


text \<open>The application with that log in memory and in the working storage.\<close>

definition stored_App :: App where
  "stored_App =
     \<lparr>log_hook = \<lparr>storedValue = [\<lparr>id_entry = 7, timestamp = 7\<rparr>], window = Some working_storage,
                  console = []\<rparr>,
      toastMessage = None, selectedDayData = None, clipboard = None\<rparr>"

text \<open>
  The window of the specification, in its own words: a timestamp \<open>t\<close> lies within the last
  \<open>d\<close> milliseconds of \<open>now\<close>. It is compared with the filter of the code below.
\<close>

definition within_last :: "int \<Rightarrow> int \<Rightarrow> int \<Rightarrow> bool" where
  "within_last d now t = (now - d < t \<and> t \<le> now)"

text \<open>The count that \<^verbatim>\<open>countsByDay\<close> holds for a day key; zero for a day without entry.\<close>

definition day_count :: "(string \<times> nat \<times> int) list \<Rightarrow> string \<Rightarrow> nat" where
  "day_count acc s = (case map_of acc s of None \<Rightarrow> 0 | Some (c, d) \<Rightarrow> c)"

text \<open>
  The lines of a text: \<^verbatim>\<open>String.prototype.split\<close> at a separator character, which is
  the line feed for the copied text.
\<close>

fun split_on :: "char \<Rightarrow> string \<Rightarrow> string list" where
  "split_on c [] = [[]]"
| "split_on c (x # xs) =
     (if x = c then [] # split_on c xs
      else (x # hd (split_on c xs)) # tl (split_on c xs))"

definition text_lines :: "string \<Rightarrow> string list" where
  "text_lines s = split_on (CHR 0x0A) s"

text \<open>
  A log of three entries for closed examples, newest first: two of 2 January 1970 and
  one of 1 January; the application holding it; and the bar of 2 January.
\<close>

definition example_log :: "LogEntry list" where
  "example_log =
     [\<lparr>id_entry = 90000000, timestamp = 90000000\<rparr>,
      \<lparr>id_entry = 86400000, timestamp = 86400000\<rparr>,
      \<lparr>id_entry = 5000, timestamp = 5000\<rparr>]"

definition example_day :: bin where
  "example_day = \<lparr>label = ''01-02'', value_bin = 2, date = 86400000, fullDate = ''1970-01-02''\<rparr>"

definition logged_App :: App where
  "logged_App =
     \<lparr>log_hook = \<lparr>storedValue = example_log, window = None, console = []\<rparr>,
      toastMessage = None, selectedDayData = None, clipboard = None\<rparr>"

text \<open>
  The formatted day is a calendar day when the moments of one day form an interval: an
  entry stamped between two entries of one day is of that day too. The predicate says so
  of the entries of a log.
\<close>

definition days_convex :: "host \<Rightarrow> LogEntry list \<Rightarrow> bool" where
  "days_convex H entries =
     list_all (\<lambda>a. list_all (\<lambda>b. list_all (\<lambda>c.
       timestamp a \<le> timestamp b \<and> timestamp b \<le> timestamp c \<and>
       day_heading H a = day_heading H c \<longrightarrow> day_heading H b = day_heading H a)
       entries) entries) entries"

text \<open>
  The invariant of the reduction \<^verbatim>\<open>groupedEntries\<close>, for a key function \<open>f\<close>: one bucket
  per key of the entries read so far, holding the entries of that key in their order.
\<close>

definition grouped_by :: "(LogEntry \<Rightarrow> string) \<Rightarrow> LogEntry list \<Rightarrow> (string \<times> LogEntry list) list \<Rightarrow> bool" where
  "grouped_by f es acc =
     (distinct (map fst acc) \<and> fst ` set acc = f ` set es \<and>
      (\<forall>k. bucket acc k = (if k \<in> f ` set es then Some (filter (\<lambda>e. f e = k) es) else None)))"

text \<open>The entries of the example log in another order, neither newest nor oldest first.\<close>

definition mixed_log :: "LogEntry list" where
  "mixed_log =
     [\<lparr>id_entry = 86400000, timestamp = 86400000\<rparr>,
      \<lparr>id_entry = 5000, timestamp = 5000\<rparr>,
      \<lparr>id_entry = 90000000, timestamp = 90000000\<rparr>]"

section \<open>Properties of the hook and of appending\<close>

text \<open>
  \<^verbatim>\<open>setValue\<close> returns normally whatever the host does, and the React state holds the new
  value afterwards: it is set before anything is written.
\<close>

lemma setValue_no_exception: "fst (setValue J key value h) = None"
  by (cases "setValue_try J key value h") (auto simp: setValue_def split: option.splits)

lemma setValue_storedValue:
  "storedValue (snd (setValue J key value h)) = valueToStore value (storedValue h)"
  by (auto simp: setValue_def setValue_try_def Let_def split: prod.splits option.splits sum.splits)

lemma setLog_no_exception: "fst (setLog J value a) = None"
  using setValue_no_exception [of J log_key "value" "log_hook a"]
  by (cases "setValue J log_key value (log_hook a)") (simp add: setLog_def)

lemma setLog_storedValue:
  "storedValue (log_hook (snd (setLog J value a))) = valueToStore value (storedValue (log_hook a))"
  using setValue_storedValue [of J log_key "value" "log_hook a"]
  by (cases "setValue J log_key value (log_hook a)") (simp add: setLog_def)

lemma handleLogUrination_no_exception: "fst (handleLogUrination J t_id t_ts a) = None"
proof -
  let ?u = "Updater (\<lambda>prevLog. \<lparr>id_entry = t_id, timestamp = t_ts\<rparr> # prevLog)"
  obtain x a' where r: "setLog J ?u a = (x, a')" by (cases "setLog J ?u a")
  from r setLog_no_exception [of J ?u a] have "x = None" by simp
  with r show ?thesis by (simp add: handleLogUrination_def)
qed

lemma handleLogUrination_storedValue:
  "storedValue (log_hook (snd (handleLogUrination J t_id t_ts a))) =
     \<lparr>id_entry = t_id, timestamp = t_ts\<rparr> # storedValue (log_hook a)"
proof -
  let ?u = "Updater (\<lambda>prevLog. \<lparr>id_entry = t_id, timestamp = t_ts\<rparr> # prevLog)"
  obtain x a' where r: "setLog J ?u a = (x, a')" by (cases "setLog J ?u a")
  from r setLog_no_exception [of J ?u a] have x: "x = None" by simp
  from r setLog_storedValue [of J ?u a]
  have "storedValue (log_hook a') = \<lparr>id_entry = t_id, timestamp = t_ts\<rparr> # storedValue (log_hook a)"
    by simp
  with r x show ?thesis by (simp add: handleLogUrination_def showToast_def)
qed

lemma handleLogUrination_run_no_exception: "fst (handleLogUrination_run J ts a) = None"
proof (induction ts arbitrary: a)
  case Nil
  show ?case by simp
next
  case (Cons p ts)
  obtain i t where p: "p = (i, t)" by (cases p)
  obtain x a' where r: "handleLogUrination J i t a = (x, a')" by (cases "handleLogUrination J i t a")
  with handleLogUrination_no_exception [of J i t a] have "x = None" by simp
  with p r Cons.IH [of a'] show ?case by simp
qed

lemma handleLogUrination_run_storedValue:
  "storedValue (log_hook (snd (handleLogUrination_run J ts a))) =
     map (\<lambda>(i, t). \<lparr>id_entry = i, timestamp = t\<rparr>) (rev ts) @ storedValue (log_hook a)"
proof (induction ts arbitrary: a)
  case Nil
  show ?case by simp
next
  case (Cons p ts)
  obtain i t where p: "p = (i, t)" by (cases p)
  obtain x a' where r: "handleLogUrination J i t a = (x, a')" by (cases "handleLogUrination J i t a")
  with handleLogUrination_no_exception [of J i t a] have x: "x = None" by simp
  from r handleLogUrination_storedValue [of J i t a]
  have "storedValue (log_hook a') = \<lparr>id_entry = i, timestamp = t\<rparr> # storedValue (log_hook a)" by simp
  with p r x Cons.IH [of a'] show ?case by simp
qed

section \<open>Appending\<close>

text \<open>
  Claim C10. Appending never modifies, removes or reorders the entries recorded before:
  whatever the log \<open>L\<close> held before, the codec and the storage, the log after one call of
  \<^verbatim>\<open>handleLogUrination\<close> is the new entry followed by \<open>L\<close> itself, so its tail is \<open>L\<close>,
  and no exception reaches the caller.
\<close>

theorem append_frame:
  "fst (handleLogUrination J t_id t_ts a) = None \<and>
   storedValue (log_hook (snd (handleLogUrination J t_id t_ts a))) =
     \<lparr>id_entry = t_id, timestamp = t_ts\<rparr> # storedValue (log_hook a) \<and>
   tl (storedValue (log_hook (snd (handleLogUrination J t_id t_ts a)))) = storedValue (log_hook a)"
proof -
  have "fst (handleLogUrination J t_id t_ts a) = None"
    by (rule handleLogUrination_no_exception)
  moreover have new: "storedValue (log_hook (snd (handleLogUrination J t_id t_ts a))) =
     \<lparr>id_entry = t_id, timestamp = t_ts\<rparr> # storedValue (log_hook a)"
    by (rule handleLogUrination_storedValue)
  moreover from new
  have "tl (storedValue (log_hook (snd (handleLogUrination J t_id t_ts a)))) = storedValue (log_hook a)"
    by simp
  ultimately show ?thesis by (intro conjI)
qed

text \<open>
  Claim C1, as the code has it. One call of \<^verbatim>\<open>handleLogUrination\<close> creates a single new
  entry and prepends it; its \<^verbatim>\<open>id\<close> is the first reading of the clock and its
  \<^verbatim>\<open>timestamp\<close> the second. Starting from the empty log, \<open>N\<close> calls give a log of length
  \<open>N\<close> that holds, newest first, the entries made of the \<open>N\<close> pairs of readings; every
  entry has \<^verbatim>\<open>id\<close> equal to \<^verbatim>\<open>timestamp\<close> when the two readings of each call agree.
\<close>

theorem append_two_clock_readings:
  "storedValue (log_hook (snd (handleLogUrination J t_id t_ts a))) =
     \<lparr>id_entry = t_id, timestamp = t_ts\<rparr> # storedValue (log_hook a) \<and>
   (storedValue (log_hook a) = [] \<longrightarrow>
      fst (handleLogUrination_run J ts a) = None \<and>
      length (storedValue (log_hook (snd (handleLogUrination_run J ts a)))) = length ts \<and>
      storedValue (log_hook (snd (handleLogUrination_run J ts a))) =
        map (\<lambda>(i, t). \<lparr>id_entry = i, timestamp = t\<rparr>) (rev ts) \<and>
      ((\<forall>(i, t) \<in> set ts. i = t) \<longrightarrow>
         (\<forall>e \<in> set (storedValue (log_hook (snd (handleLogUrination_run J ts a)))).
            id_entry e = timestamp e)))"
  by (auto simp: handleLogUrination_storedValue handleLogUrination_run_no_exception
      handleLogUrination_run_storedValue)

text \<open>Two calls on the empty log, each with equal readings.\<close>

theorem append_two_clock_readings_witness:
  "storedValue (log_hook example_App) = [] \<and>
   list_all (\<lambda>(i, t). i = t) [(1000, 1000), (2000, 2000 :: int)] \<and>
   storedValue (log_hook (snd (handleLogUrination_run example_JSON [(1000, 1000), (2000, 2000)] example_App))) =
     [\<lparr>id_entry = 2000, timestamp = 2000\<rparr>, \<lparr>id_entry = 1000, timestamp = 1000\<rparr>] \<and>
   list_all (\<lambda>e. id_entry e = timestamp e)
     (storedValue (log_hook (snd (handleLogUrination_run example_JSON [(1000, 1000), (2000, 2000)] example_App))))"
proof -
  have h0: "storedValue (log_hook example_App) = []"
    by (simp add: example_App_def)
  have h1: "\<forall>(i, t) \<in> set [(1000, 1000), (2000, 2000 :: int)]. i = t"
    by simp
  from append_two_clock_readings [of example_JSON 0 0 example_App "[(1000, 1000), (2000, 2000)]"] h0
  have r: "storedValue (log_hook (snd (handleLogUrination_run example_JSON [(1000, 1000), (2000, 2000)] example_App))) =
        map (\<lambda>(i, t). \<lparr>id_entry = i, timestamp = t\<rparr>) (rev [(1000, 1000), (2000, 2000)])"
    by blast
  from append_two_clock_readings [of example_JSON 0 0 example_App "[(1000, 1000), (2000, 2000)]"] h0 h1
  have e: "\<forall>e \<in> set (storedValue (log_hook (snd (handleLogUrination_run example_JSON [(1000, 1000), (2000, 2000)] example_App)))).
      id_entry e = timestamp e"
    by blast
  from r have r': "storedValue (log_hook (snd (handleLogUrination_run example_JSON [(1000, 1000), (2000, 2000)] example_App))) =
     [\<lparr>id_entry = 2000, timestamp = 2000\<rparr>, \<lparr>id_entry = 1000, timestamp = 1000\<rparr>]"
    by simp
  from e have e': "list_all (\<lambda>e. id_entry e = timestamp e)
     (storedValue (log_hook (snd (handleLogUrination_run example_JSON [(1000, 1000), (2000, 2000)] example_App))))"
    by (simp only: list_all_iff)
  have h1': "list_all (\<lambda>(i, t). i = t) [(1000, 1000), (2000, 2000 :: int)]"
    by simp
  from h0 h1' r' e' show ?thesis by (intro conjI)
qed

text \<open>
  The clock moves from 1000 to 1001 between the two readings of one call: the entry has
  \<^verbatim>\<open>id\<close> 1000 and \<^verbatim>\<open>timestamp\<close> 1001.
\<close>

theorem append_id_timestamp_counterexample:
  "storedValue (log_hook (snd (handleLogUrination example_JSON 1000 1001 example_App))) =
     [\<lparr>id_entry = 1000, timestamp = 1001\<rparr>] \<and>
   id_entry (hd (storedValue (log_hook (snd (handleLogUrination example_JSON 1000 1001 example_App))))) \<noteq>
   timestamp (hd (storedValue (log_hook (snd (handleLogUrination example_JSON 1000 1001 example_App)))))"
  by (simp add: handleLogUrination_def setLog_def setValue_def setValue_try_def example_App_def
      showToast_def)

section \<open>The persistent store\<close>




section \<open>Clearing\<close>

lemma handleClearLog_no_exception: "fst (handleClearLog J confirmed a) = None"
proof -
  obtain x a' where r: "setLog J (Value []) a = (x, a')" by (cases "setLog J (Value []) a")
  from r setLog_no_exception [of J "Value []" a] have "x = None" by simp
  with r show ?thesis by (simp add: handleClearLog_def)
qed

lemma handleClearLog_log_hook:
  "log_hook (snd (handleClearLog J True a)) = snd (setValue J log_key (Value []) (log_hook a))"
proof -
  obtain x h where r: "setValue J log_key (Value []) (log_hook a) = (x, h)"
    by (cases "setValue J log_key (Value []) (log_hook a)")
  from r setValue_no_exception [of J log_key "Value []" "log_hook a"] have "x = None" by simp
  with r show ?thesis by (simp add: handleClearLog_def setLog_def showToast_def)
qed

lemma App_start_empty:
  assumes "items ls log_key = Some s" "parse J s = Inr []"
  shows "\<exists>a'. App_start J (Some ls) = Inr a' \<and> storedValue (log_hook a') = []"
  using assms
  by (auto simp: App_start_def useLocalStorage_def read_item_def getItem_def
      split: option.splits sum.splits)

lemma App_start_no_window:
  "\<exists>a'. App_start J None = Inr a' \<and> storedValue (log_hook a') = []"
  by (simp add: App_start_def useLocalStorage_def)

text \<open>
  Claim C8. Without the user's confirmation \<^verbatim>\<open>handleClearLog\<close> does nothing. With it, for
  every log, the log in memory is empty afterwards and no exception reaches the caller;
  when the storage accepts the write, the serialized empty array is stored under the key,
  and, the codec reading back \<open>[]\<close> from what it wrote for \<open>[]\<close>, the next start of the
  application on that storage has the empty log. So has a start without \<^verbatim>\<open>window\<close>.
\<close>

theorem clear_round_trip:
  "handleClearLog J False a = (None, a) \<and>
   fst (handleClearLog J True a) = None \<and>
   storedValue (log_hook (snd (handleClearLog J True a))) = [] \<and>
   (\<forall>ls s. window (log_hook a) = Some ls \<and> stringify J [] = Inr s \<and>
      setItem_error ls log_key s = None \<longrightarrow>
      window (log_hook (snd (handleClearLog J True a))) =
        Some (ls\<lparr>items := (items ls)(log_key \<mapsto> s)\<rparr>) \<and>
      (parse J s = Inr [] \<longrightarrow>
         (\<exists>a'. App_start J (window (log_hook (snd (handleClearLog J True a)))) = Inr a' \<and>
            storedValue (log_hook a') = []))) \<and>
   (window (log_hook a) = None \<longrightarrow>
      (\<exists>a'. App_start J (window (log_hook (snd (handleClearLog J True a)))) = Inr a' \<and>
         storedValue (log_hook a') = []))"
proof -
  have c1: "handleClearLog J False a = (None, a)"
    by (simp add: handleClearLog_def)
  have c3: "storedValue (log_hook (snd (handleClearLog J True a))) = []"
    by (simp add: handleClearLog_log_hook setValue_storedValue)
  have c4: "\<forall>ls s. window (log_hook a) = Some ls \<and> stringify J [] = Inr s \<and>
      setItem_error ls log_key s = None \<longrightarrow>
      window (log_hook (snd (handleClearLog J True a))) =
        Some (ls\<lparr>items := (items ls)(log_key \<mapsto> s)\<rparr>) \<and>
      (parse J s = Inr [] \<longrightarrow>
         (\<exists>a'. App_start J (window (log_hook (snd (handleClearLog J True a)))) = Inr a' \<and>
            storedValue (log_hook a') = []))"
  proof (intro allI impI)
    fix ls s
    assume h: "window (log_hook a) = Some ls \<and> stringify J [] = Inr s \<and>
      setItem_error ls log_key s = None"
    then have w: "window (log_hook (snd (handleClearLog J True a))) =
        Some (ls\<lparr>items := (items ls)(log_key \<mapsto> s)\<rparr>)"
      by (simp add: handleClearLog_log_hook setValue_def setValue_try_def setItem_def Let_def)
    have "parse J s = Inr [] \<longrightarrow>
         (\<exists>a'. App_start J (window (log_hook (snd (handleClearLog J True a)))) = Inr a' \<and>
            storedValue (log_hook a') = [])"
      using App_start_empty [of "ls\<lparr>items := (items ls)(log_key \<mapsto> s)\<rparr>" s J] w by simp
    with w show "window (log_hook (snd (handleClearLog J True a))) =
        Some (ls\<lparr>items := (items ls)(log_key \<mapsto> s)\<rparr>) \<and>
      (parse J s = Inr [] \<longrightarrow>
         (\<exists>a'. App_start J (window (log_hook (snd (handleClearLog J True a)))) = Inr a' \<and>
            storedValue (log_hook a') = []))"
      by (intro conjI)
  qed
  have c5: "window (log_hook a) = None \<longrightarrow>
      (\<exists>a'. App_start J (window (log_hook (snd (handleClearLog J True a)))) = Inr a' \<and>
         storedValue (log_hook a') = [])"
  proof
    assume "window (log_hook a) = None"
    then have "window (log_hook (snd (handleClearLog J True a))) = None"
      by (simp add: handleClearLog_log_hook setValue_def setValue_try_def Let_def)
    with App_start_no_window [of J] show "\<exists>a'. App_start J (window (log_hook (snd (handleClearLog J True a)))) = Inr a' \<and>
         storedValue (log_hook a') = []"
      by simp
  qed
  from c1 handleClearLog_no_exception [of J True a] c3 c4 c5 show ?thesis by (intro conjI)
qed

text \<open>The log of one entry is cleared and the application starts again on the storage.\<close>

theorem clear_round_trip_witness:
  "window (log_hook stored_App) = Some working_storage \<and>
   stringify example_JSON [] = Inr ''[]'' \<and>
   setItem_error working_storage log_key ''[]'' = None \<and>
   parse example_JSON ''[]'' = Inr [] \<and>
   storedValue (log_hook (snd (handleClearLog example_JSON True stored_App))) = [] \<and>
   window (log_hook (snd (handleClearLog example_JSON True stored_App))) =
     Some (working_storage\<lparr>items := (items working_storage)(log_key \<mapsto> ''[]'')\<rparr>) \<and>
   (\<exists>a'. App_start example_JSON (window (log_hook (snd (handleClearLog example_JSON True stored_App)))) = Inr a' \<and>
      storedValue (log_hook a') = [])"
proof -
  note t = clear_round_trip [of example_JSON stored_App]
  have h1: "window (log_hook stored_App) = Some working_storage"
    by (simp add: stored_App_def)
  have h2: "stringify example_JSON [] = Inr ''[]''"
    by (simp add: example_JSON_def entries_text_def)
  have h3: "setItem_error working_storage log_key ''[]'' = None"
    by (simp add: working_storage_def)
  have h4: "parse example_JSON ''[]'' = Inr []"
    by (simp add: example_JSON_def read_entries_def)
  from t have r1: "storedValue (log_hook (snd (handleClearLog example_JSON True stored_App))) = []"
    by blast
  from t h1 h2 h3 have r2: "window (log_hook (snd (handleClearLog example_JSON True stored_App))) =
     Some (working_storage\<lparr>items := (items working_storage)(log_key \<mapsto> ''[]'')\<rparr>)"
    by blast
  from t h1 h2 h3 h4 have r3: "\<exists>a'. App_start example_JSON (window (log_hook (snd (handleClearLog example_JSON True stored_App)))) = Inr a' \<and>
      storedValue (log_hook a') = []"
    by blast
  from h1 h2 h3 h4 r1 r2 r3 show ?thesis by (intro conjI)
qed

section \<open>The chart: period filter\<close>

text \<open>The comparison of the quotient, on integers.\<close>

lemma in_period_iff:
  "in_period period now entry =
     (case period of
        Week \<Rightarrow> now - 7 * oneDay < timestamp entry
      | Month \<Rightarrow> now - 30 * oneDay < timestamp entry
      | All_entries \<Rightarrow> True)"
proof -
  have pos: "(0 :: rat) < of_int oneDay" by (simp add: oneDay_def)
  have "\<And>k :: int. ((of_int (now - timestamp entry) :: rat) / of_int oneDay < of_int k) =
      (now - k * oneDay < timestamp entry)"
  proof -
    fix k :: int
    have "((of_int (now - timestamp entry) :: rat) / of_int oneDay < of_int k) =
        ((of_int (now - timestamp entry) :: rat) < of_int k * of_int oneDay)"
      using pos by (simp add: pos_divide_less_eq)
    also have "\<dots> = ((of_int (now - timestamp entry) :: rat) < of_int (k * oneDay))"
      by simp
    also have "\<dots> = (now - timestamp entry < k * oneDay)"
      by (simp only: of_int_less_iff)
    also have "\<dots> = (now - k * oneDay < timestamp entry)"
      by arith
    finally show "((of_int (now - timestamp entry) :: rat) / of_int oneDay < of_int k) =
      (now - k * oneDay < timestamp entry)" .
  qed
  from this [of 7] this [of 30] show ?thesis
    by (cases period) (simp_all add: in_period_def)
qed

text \<open>
  Claim C4, as the code has it. The filter keeps exactly the entries younger than the
  period: those with \<open>now - timestamp < 7 \<times> 24 h\<close> for the week, \<open>< 30 \<times> 24 h\<close> for the
  month, and all entries for the period \<^verbatim>\<open>'all'\<close>. There is no bound on the other side: an
  entry stamped after \<open>now\<close> is kept. For a log with no entry stamped after \<open>now\<close> the
  entries kept are exactly those within the last \<open>7 \<times> 24 h\<close> (\<open>30 \<times> 24 h\<close>) of \<open>now\<close>. Of
  entries at \<open>now - 1 d\<close>, \<open>now - 6 d\<close> and \<open>now - 10 d\<close> the week keeps the first two.
\<close>

theorem period_filter_by_age:
  "filteredEntries Week now entries = filter (\<lambda>e. now - 7 * oneDay < timestamp e) entries \<and>
   filteredEntries Month now entries = filter (\<lambda>e. now - 30 * oneDay < timestamp e) entries \<and>
   filteredEntries All_entries now entries = entries \<and>
   ((\<forall>e \<in> set entries. timestamp e \<le> now) \<longrightarrow>
      filteredEntries Week now entries =
        filter (\<lambda>e. within_last (7 * oneDay) now (timestamp e)) entries \<and>
      filteredEntries Month now entries =
        filter (\<lambda>e. within_last (30 * oneDay) now (timestamp e)) entries) \<and>
   filteredEntries Week now
     [\<lparr>id_entry = i1, timestamp = now - 1 * oneDay\<rparr>,
      \<lparr>id_entry = i2, timestamp = now - 6 * oneDay\<rparr>,
      \<lparr>id_entry = i3, timestamp = now - 10 * oneDay\<rparr>] =
     [\<lparr>id_entry = i1, timestamp = now - 1 * oneDay\<rparr>,
      \<lparr>id_entry = i2, timestamp = now - 6 * oneDay\<rparr>]"
proof -
  have w: "filteredEntries Week now entries = filter (\<lambda>e. now - 7 * oneDay < timestamp e) entries"
    unfolding filteredEntries_def by (rule filter_cong) (simp_all add: in_period_iff)
  have m: "filteredEntries Month now entries = filter (\<lambda>e. now - 30 * oneDay < timestamp e) entries"
    unfolding filteredEntries_def by (rule filter_cong) (simp_all add: in_period_iff)
  have a: "filteredEntries All_entries now entries = entries"
    by (simp add: filteredEntries_def in_period_def)
  have p: "(\<forall>e \<in> set entries. timestamp e \<le> now) \<longrightarrow>
      filteredEntries Week now entries =
        filter (\<lambda>e. within_last (7 * oneDay) now (timestamp e)) entries \<and>
      filteredEntries Month now entries =
        filter (\<lambda>e. within_last (30 * oneDay) now (timestamp e)) entries"
    unfolding w m within_last_def by (auto intro: filter_cong)
  have x: "filteredEntries Week now
     [\<lparr>id_entry = i1, timestamp = now - 1 * oneDay\<rparr>,
      \<lparr>id_entry = i2, timestamp = now - 6 * oneDay\<rparr>,
      \<lparr>id_entry = i3, timestamp = now - 10 * oneDay\<rparr>] =
     [\<lparr>id_entry = i1, timestamp = now - 1 * oneDay\<rparr>,
      \<lparr>id_entry = i2, timestamp = now - 6 * oneDay\<rparr>]"
    by (simp add: filteredEntries_def in_period_iff oneDay_def)
  from w m a p x show ?thesis by (intro conjI)
qed

text \<open>A log of two entries in the past, one day and eight days old.\<close>

theorem period_filter_by_age_witness:
  "list_all (\<lambda>e. timestamp e \<le> 1000000000)
     [\<lparr>id_entry = 1, timestamp = 1000000000 - 1 * oneDay\<rparr>,
      \<lparr>id_entry = 2, timestamp = 1000000000 - 8 * oneDay\<rparr>] \<and>
   filteredEntries Week 1000000000
     [\<lparr>id_entry = 1, timestamp = 1000000000 - 1 * oneDay\<rparr>,
      \<lparr>id_entry = 2, timestamp = 1000000000 - 8 * oneDay\<rparr>] =
   [\<lparr>id_entry = 1, timestamp = 1000000000 - 1 * oneDay\<rparr>]"
proof -
  let ?es = "[\<lparr>id_entry = 1, timestamp = 1000000000 - 1 * oneDay\<rparr>,
      \<lparr>id_entry = 2, timestamp = 1000000000 - 8 * oneDay\<rparr>]"
  have h: "\<forall>e \<in> set ?es. timestamp e \<le> 1000000000"
    by (simp add: oneDay_def)
  from period_filter_by_age [of 1000000000 ?es] h
  have "filteredEntries Week 1000000000 ?es =
      filter (\<lambda>e. within_last (7 * oneDay) 1000000000 (timestamp e)) ?es"
    by blast
  then have r: "filteredEntries Week 1000000000 ?es =
      [\<lparr>id_entry = 1, timestamp = 1000000000 - 1 * oneDay\<rparr>]"
    by (simp add: within_last_def oneDay_def)
  have "list_all (\<lambda>e. timestamp e \<le> 1000000000) ?es"
    by (simp add: oneDay_def)
  with r show ?thesis by (intro conjI)
qed

text \<open>
  An entry stamped one second after \<open>now\<close> is not within the last seven days of \<open>now\<close>,
  and the week keeps it.
\<close>

theorem period_filter_future_counterexample:
  "filteredEntries Week 1000 [\<lparr>id_entry = 2000, timestamp = 2000\<rparr>] =
     [\<lparr>id_entry = 2000, timestamp = 2000\<rparr>] \<and>
   filter (\<lambda>e. within_last (7 * oneDay) 1000 (timestamp e)) [\<lparr>id_entry = 2000, timestamp = 2000\<rparr>] = []"
  by (simp add: filteredEntries_def in_period_def within_last_def oneDay_def)

section \<open>The chart: axis\<close>

lemma maxValue_Max: "vs \<noteq> [] \<Longrightarrow> maxValue vs = int (Max (set vs))"
proof (induction vs)
  case Nil
  then show ?case by simp
next
  case (Cons v vs)
  show ?case
  proof (cases "vs = []")
    case True
    then show ?thesis by (simp add: maxValue_def)
  next
    case False
    with Cons.IH have "maxValue vs = int (Max (set vs))" by simp
    with False show ?thesis by (simp add: maxValue_def)
  qed
qed

lemma maxValue_empty: "maxValue [] = 0"
  by (simp add: maxValue_def)

lemma yAxisTop_div: "yAxisTop m = (if m \<le> 5 then m else (m + 4) div 5 * 5)"
proof -
  have "\<lceil>(of_int m :: rat) / 5\<rceil> = (m + 4) div 5"
  proof -
    have "\<lceil>(of_int m :: rat) / of_int 5\<rceil> = - (- m div 5)"
      by (rule ceiling_divide_eq_div)
    also have "\<dots> = (m + 4) div 5" by presburger
    finally show ?thesis by simp
  qed
  then show ?thesis by (simp add: yAxisTop_def)
qed

lemma yAxisTop_next_multiple:
  "5 < m \<Longrightarrow> 5 dvd yAxisTop m \<and> m \<le> yAxisTop m \<and> yAxisTop m < m + 5"
  unfolding yAxisTop_div by presburger

lemma Math_round_of_int: "Math_round (of_int k) = k"
proof -
  have "\<lfloor>(of_int k :: rat) + 1 / 2\<rfloor> = k" by (simp add: floor_unique)
  then show ?thesis by (simp add: Math_round_def)
qed

lemma numTicks_dvd: "0 < m \<Longrightarrow> numTicks (yAxisTop m) dvd yAxisTop m"
  unfolding yAxisTop_div numTicks_def by (auto simp: min_def)

lemma label_exact:
  assumes "n dvd y" "n \<noteq> 0"
  shows "Math_round ((of_int y / of_int n) * of_nat i) = y div n * int i"
proof -
  from assms obtain k where k: "y = n * k" by (auto simp: dvd_def)
  with assms(2) have "(of_int y :: rat) / of_int n = of_int k" by simp
  then have "Math_round ((of_int y / of_int n) * of_nat i) = Math_round (of_int (k * int i))"
    by simp
  also have "\<dots> = k * int i" by (rule Math_round_of_int)
  finally show ?thesis using k assms(2) by simp
qed

lemma yAxisLabels_exact:
  assumes "0 < m"
  shows "yAxisLabels (yAxisTop m) =
     map (\<lambda>i. yAxisTop m div numTicks (yAxisTop m) * int i) [0 ..< nat (numTicks (yAxisTop m)) + 1]"
proof -
  from assms have pos: "0 < yAxisTop m" unfolding yAxisTop_div by auto
  then have n: "numTicks (yAxisTop m) \<noteq> 0" "0 < numTicks (yAxisTop m)" by (auto simp: numTicks_def)
  from n(2) have len: "nat (numTicks (yAxisTop m) + 1) = nat (numTicks (yAxisTop m)) + 1" by simp
  have "yAxisLabels (yAxisTop m) =
      map (\<lambda>i. Math_round ((of_int (yAxisTop m) / of_int (numTicks (yAxisTop m))) * of_nat i))
        [0 ..< nat (numTicks (yAxisTop m) + 1)]"
    using pos by (simp only: yAxisLabels_def if_True)
  also have "\<dots> = map (\<lambda>i. yAxisTop m div numTicks (yAxisTop m) * int i)
        [0 ..< nat (numTicks (yAxisTop m) + 1)]"
    by (simp only: label_exact [OF numTicks_dvd [OF assms] n(1)])
  finally show ?thesis by (simp only: len)
qed

text \<open>
  Claim C3. For a non-empty sequence of counts \<^verbatim>\<open>maxValue\<close> is their maximum. The top of
  the axis is \<^verbatim>\<open>maxValue\<close> when that is at most 5, and otherwise the least multiple of 5
  that is not below it. \<^verbatim>\<open>numTicks\<close> is the minimum of the top and 5 when the top is
  positive; the labels then are zero and \<^verbatim>\<open>numTicks\<close> equal steps up to the top. When the top
  is zero there is the single label 0. The counts 1, 2, 3 give the top 3; the counts
  1, 6, 11 give the top 15 and 5 ticks.
\<close>

theorem axis_scaling:
  "(vs \<noteq> [] \<longrightarrow> maxValue vs = int (Max (set vs))) \<and>
   (m \<le> 5 \<longrightarrow> yAxisTop m = m) \<and>
   (5 < m \<longrightarrow> 5 dvd yAxisTop m \<and> m \<le> yAxisTop m \<and> yAxisTop m < m + 5) \<and>
   (0 < y \<longrightarrow> numTicks y = min y 5) \<and>
   (y \<le> 0 \<longrightarrow> numTicks y = 0 \<and> yAxisLabels y = [0]) \<and>
   (0 < m \<longrightarrow>
      length (yAxisLabels (yAxisTop m)) = nat (numTicks (yAxisTop m)) + 1 \<and>
      yAxisLabels (yAxisTop m) =
        map (\<lambda>i. yAxisTop m div numTicks (yAxisTop m) * int i)
          [0 ..< nat (numTicks (yAxisTop m)) + 1]) \<and>
   yAxisTop (maxValue [1, 2, 3]) = 3 \<and>
   yAxisTop (maxValue [1, 6, 11]) = 15 \<and>
   numTicks (yAxisTop (maxValue [1, 6, 11])) = 5"
proof -
  have a: "vs \<noteq> [] \<longrightarrow> maxValue vs = int (Max (set vs))"
    by (simp add: maxValue_Max)
  have b: "m \<le> 5 \<longrightarrow> yAxisTop m = m"
    by (simp add: yAxisTop_def)
  have c: "5 < m \<longrightarrow> 5 dvd yAxisTop m \<and> m \<le> yAxisTop m \<and> yAxisTop m < m + 5"
    using yAxisTop_next_multiple [of m] by blast
  have d: "0 < y \<longrightarrow> numTicks y = min y 5"
    by (simp add: numTicks_def)
  have e: "y \<le> 0 \<longrightarrow> numTicks y = 0 \<and> yAxisLabels y = [0]"
    by (simp add: numTicks_def yAxisLabels_def)
  have f: "0 < m \<longrightarrow>
      length (yAxisLabels (yAxisTop m)) = nat (numTicks (yAxisTop m)) + 1 \<and>
      yAxisLabels (yAxisTop m) =
        map (\<lambda>i. yAxisTop m div numTicks (yAxisTop m) * int i)
          [0 ..< nat (numTicks (yAxisTop m)) + 1]"
  proof
    assume "0 < m"
    from yAxisLabels_exact [OF this]
    show "length (yAxisLabels (yAxisTop m)) = nat (numTicks (yAxisTop m)) + 1 \<and>
      yAxisLabels (yAxisTop m) =
        map (\<lambda>i. yAxisTop m div numTicks (yAxisTop m) * int i)
          [0 ..< nat (numTicks (yAxisTop m)) + 1]"
      by simp
  qed
  have g: "yAxisTop (maxValue [1, 2, 3]) = 3"
    by (simp add: maxValue_def yAxisTop_def)
  have h: "yAxisTop (maxValue [1, 6, 11]) = 15"
    by (simp add: maxValue_def yAxisTop_div)
  have i: "numTicks (yAxisTop (maxValue [1, 6, 11])) = 5"
    by (simp only: h) (simp add: numTicks_def)
  from a b c d e f g h i show ?thesis by (intro conjI)
qed

text \<open>The two examples of the claim, with their labels, and the axis of top zero.\<close>

theorem axis_scaling_witness:
  "[1, 6, 11 :: nat] \<noteq> [] \<and>
   maxValue [1, 6, 11] = 11 \<and>
   (5 :: int) < 11 \<and>
   yAxisTop 11 = 15 \<and>
   numTicks 15 = 5 \<and>
   yAxisLabels 15 = [0, 3, 6, 9, 12, 15] \<and>
   yAxisTop 3 = 3 \<and>
   numTicks 3 = 3 \<and>
   yAxisLabels 3 = [0, 1, 2, 3] \<and>
   yAxisLabels 0 = [0]"
proof -
  note t = axis_scaling
  have n: "[1, 6, 11 :: nat] \<noteq> []" by simp
  from t [of "[1, 6, 11]" 11 15] have "maxValue [1, 6, 11] = int (Max (set [1, 6, 11]))"
    by blast
  then have a: "maxValue [1, 6, 11] = 11" by simp
  have l: "(5 :: int) < 11" by simp
  from t [of "[]" 11 15] l have "5 dvd yAxisTop 11 \<and> 11 \<le> yAxisTop 11 \<and> yAxisTop 11 < 11 + 5"
    by blast
  then have b: "yAxisTop 11 = 15" by presburger
  have p15: "(0 :: int) < 15" by simp
  from t [of "[]" 11 15] p15 have "numTicks 15 = min 15 5" by blast
  then have c: "numTicks 15 = 5" by simp
  have p11: "(0 :: int) < 11" by simp
  from t [of "[]" 11 15] p11
  have "yAxisLabels (yAxisTop 11) =
      map (\<lambda>i. yAxisTop 11 div numTicks (yAxisTop 11) * int i) [0 ..< nat (numTicks (yAxisTop 11)) + 1]"
    by blast
  then have "yAxisLabels 15 = map (\<lambda>i. 15 div 5 * int i) [0 ..< nat 5 + 1]"
    by (simp only: b c)
  also have "\<dots> = [0, 3, 6, 9, 12, 15]"
    by code_simp
  finally have d: "yAxisLabels 15 = [0, 3, 6, 9, 12, 15]" .
  have l3: "(3 :: int) \<le> 5" by simp
  from t [of "[]" 3 3] l3 have e: "yAxisTop 3 = 3" by blast
  have p3: "(0 :: int) < 3" by simp
  from t [of "[]" 3 3] p3 have "numTicks 3 = min 3 5" by blast
  then have f: "numTicks 3 = 3" by simp
  from t [of "[]" 3 3] p3
  have "yAxisLabels (yAxisTop 3) =
      map (\<lambda>i. yAxisTop 3 div numTicks (yAxisTop 3) * int i) [0 ..< nat (numTicks (yAxisTop 3)) + 1]"
    by blast
  then have "yAxisLabels 3 = map (\<lambda>i. 3 div 3 * int i) [0 ..< nat 3 + 1]"
    by (simp only: e f)
  also have "\<dots> = [0, 1, 2, 3]"
    by code_simp
  finally have g: "yAxisLabels 3 = [0, 1, 2, 3]" .
  have z: "(0 :: int) \<le> 0" by simp
  from t [of "[]" 0 0] z have h: "yAxisLabels 0 = [0]" by blast
  from n a l b c d e f g h show ?thesis by (intro conjI)
qed

section \<open>The chart: bins and drill-down\<close>

text \<open>
  The reduction \<^verbatim>\<open>countsByDay\<close> keeps one pair per day key, and the count of a key is the
  number of entries with that key.
\<close>

lemma day_count_count_entry:
  "day_count (count_entry s d acc) k = day_count acc k + (if k = s then 1 else 0)"
  by (induction s d acc rule: count_entry.induct) (auto simp: day_count_def)

lemma keys_count_entry: "fst ` set (count_entry s d acc) = insert s (fst ` set acc)"
  by (induction s d acc rule: count_entry.induct) auto

lemma distinct_count_entry:
  "distinct (map fst acc) \<Longrightarrow> distinct (map fst (count_entry s d acc))"
proof (induction s d acc rule: count_entry.induct)
  case (1 s d)
  show ?case by simp
next
  case (2 s d k c d' acc)
  show ?case
  proof (cases "k = s")
    case True
    with "2.prems" show ?thesis by simp
  next
    case False
    with "2.prems" "2.IH" have "distinct (map fst (count_entry s d acc))" by simp
    moreover from False "2.prems" have "k \<notin> fst ` set (count_entry s d acc)"
      by (simp add: keys_count_entry)
    ultimately show ?thesis using False by simp
  qed
qed

lemma foldl_count_entry:
  "day_count (foldl (\<lambda>acc e. count_entry (f e) (g e) acc) acc es) k =
     day_count acc k + length (filter (\<lambda>e. f e = k) es)"
  by (induction es arbitrary: acc) (auto simp: day_count_count_entry)

lemma foldl_count_entry_distinct:
  "distinct (map fst acc) \<Longrightarrow>
   distinct (map fst (foldl (\<lambda>acc e. count_entry (f e) (g e) acc) acc es))"
  by (induction es arbitrary: acc) (auto simp: distinct_count_entry)

lemma countsByDay_distinct: "distinct (map fst (countsByDay H es))"
  unfolding countsByDay_def by (rule foldl_count_entry_distinct) simp

lemma countsByDay_count:
  "day_count (countsByDay H es) k = length (filter (\<lambda>e. dateString H e = k) es)"
  unfolding countsByDay_def foldl_count_entry by (simp add: day_count_def)

lemma countsByDay_member:
  assumes "(s, c, d) \<in> set (countsByDay H es)"
  shows "c = length (dayEntries H s es)"
proof -
  from assms countsByDay_distinct [of H es] have "map_of (countsByDay H es) s = Some (c, d)"
    by simp
  then have "day_count (countsByDay H es) s = c" by (simp add: day_count_def)
  then show ?thesis by (simp add: countsByDay_count dayEntries_def)
qed

lemma chartData_member:
  assumes "b \<in> set (chartData H now period es)"
  shows "value_bin b = length (dayEntries H (fullDate b) (filteredEntries period now es))"
proof -
  from assms obtain s c d where m: "(s, c, d) \<in> set (countsByDay H (filteredEntries period now es))"
    and b: "b = \<lparr>label = formatTimestamp H d Bar_label, value_bin = c, date = d, fullDate = s\<rparr>"
    by (auto simp: chartData_def sort_ascending_def)
  from countsByDay_member [OF m] b show ?thesis by simp
qed

lemma filteredEntries_All: "filteredEntries All_entries now es = es"
  by (simp add: filteredEntries_def in_period_def)

text \<open>The example host on the example log.\<close>

lemma dateString_examples:
  "dateString example_host \<lparr>id_entry = 90000000, timestamp = 90000000\<rparr> = ''1970-01-02''"
  "dateString example_host \<lparr>id_entry = 86400000, timestamp = 86400000\<rparr> = ''1970-01-02''"
  "dateString example_host \<lparr>id_entry = 5000, timestamp = 5000\<rparr> = ''1970-01-01''"
  by code_simp+

lemma chartData_example:
  "chartData example_host 0 All_entries example_log =
     [\<lparr>label = ''01-01'', value_bin = 1, date = 0, fullDate = ''1970-01-01''\<rparr>, example_day]"
  by code_simp

text \<open>
  Claim C5. \<^verbatim>\<open>handleBarClick\<close> selects, for a day key, exactly the entries of the log whose
  midnight-normalized date string is that key: a subsequence of the log (so in the order
  of the log), with every entry of that day as often as the log has it and no entry of
  another day; the log itself is left as it is. Whatever the order of the log, the same
  entries are selected.
\<close>

theorem drill_down_exact:
  "selectedDayData (handleBarClick H s a) = Some (dayEntries H s (storedValue (log_hook a))) \<and>
   log_hook (handleBarClick H s a) = log_hook a \<and>
   subseq (dayEntries H s entries) entries \<and>
   set (dayEntries H s entries) = {e \<in> set entries. dateString H e = s} \<and>
   mset (dayEntries H s entries) = filter_mset (\<lambda>e. dateString H e = s) (mset entries) \<and>
   (mset entries = mset entries' \<longrightarrow>
      mset (dayEntries H s entries) = mset (dayEntries H s entries'))"
proof -
  have a: "selectedDayData (handleBarClick H s a) = Some (dayEntries H s (storedValue (log_hook a)))"
    by (simp add: handleBarClick_def)
  have b: "log_hook (handleBarClick H s a) = log_hook a"
    by (simp add: handleBarClick_def)
  have c: "subseq (dayEntries H s entries) entries"
    by (simp add: dayEntries_def)
  have d: "set (dayEntries H s entries) = {e \<in> set entries. dateString H e = s}"
    by (auto simp: dayEntries_def)
  have e: "mset (dayEntries H s entries) = filter_mset (\<lambda>e. dateString H e = s) (mset entries)"
    by (simp add: dayEntries_def)
  have f: "mset entries = mset entries' \<longrightarrow>
      mset (dayEntries H s entries) = mset (dayEntries H s entries')"
    by (simp add: dayEntries_def)
  from a b c d e f show ?thesis by (intro conjI)
qed

text \<open>The example log and its reverse, at the key of 2 January.\<close>

theorem drill_down_exact_witness:
  "mset example_log = mset (rev example_log) \<and>
   mset (dayEntries example_host ''1970-01-02'' example_log) =
     mset (dayEntries example_host ''1970-01-02'' (rev example_log)) \<and>
   selectedDayData (handleBarClick example_host ''1970-01-02'' logged_App) =
     Some [\<lparr>id_entry = 90000000, timestamp = 90000000\<rparr>,
           \<lparr>id_entry = 86400000, timestamp = 86400000\<rparr>]"
proof -
  note t = drill_down_exact [of example_host "''1970-01-02''" logged_App example_log "rev example_log"]
  have h: "mset example_log = mset (rev example_log)"
    by simp
  from t h have a: "mset (dayEntries example_host ''1970-01-02'' example_log) =
     mset (dayEntries example_host ''1970-01-02'' (rev example_log))"
    by blast
  from t have "selectedDayData (handleBarClick example_host ''1970-01-02'' logged_App) =
      Some (dayEntries example_host ''1970-01-02'' (storedValue (log_hook logged_App)))"
    by blast
  also have "storedValue (log_hook logged_App) = example_log"
    by (simp add: logged_App_def)
  also have "dayEntries example_host ''1970-01-02'' example_log =
     [\<lparr>id_entry = 90000000, timestamp = 90000000\<rparr>, \<lparr>id_entry = 86400000, timestamp = 86400000\<rparr>]"
    by (simp add: dayEntries_def example_log_def dateString_examples)
  finally have b: "selectedDayData (handleBarClick example_host ''1970-01-02'' logged_App) =
     Some [\<lparr>id_entry = 90000000, timestamp = 90000000\<rparr>,
           \<lparr>id_entry = 86400000, timestamp = 86400000\<rparr>]" .
  from h a b show ?thesis by (intro conjI)
qed

text \<open>
  Claim C9. Under the period \<^verbatim>\<open>'all'\<close>, for every bin of \<^verbatim>\<open>chartData\<close>, the drill-down at
  the bin's key \<^verbatim>\<open>fullDate\<close> selects as many entries as the bin's \<^verbatim>\<open>value\<close>: both compute
  the key of an entry by the same \<open>dateString\<close>.
\<close>

theorem bin_value_is_drill_down_length:
  "\<forall>b \<in> set (chartData H now All_entries (storedValue (log_hook a))).
     selectedDayData (handleBarClick H (fullDate b) a) =
       Some (dayEntries H (fullDate b) (storedValue (log_hook a))) \<and>
     length (dayEntries H (fullDate b) (storedValue (log_hook a))) = value_bin b"
proof
  fix b
  assume "b \<in> set (chartData H now All_entries (storedValue (log_hook a)))"
  from chartData_member [OF this]
  have "value_bin b = length (dayEntries H (fullDate b) (storedValue (log_hook a)))"
    by (simp only: filteredEntries_All)
  then show "selectedDayData (handleBarClick H (fullDate b) a) =
       Some (dayEntries H (fullDate b) (storedValue (log_hook a))) \<and>
     length (dayEntries H (fullDate b) (storedValue (log_hook a))) = value_bin b"
    by (simp add: handleBarClick_def)
qed

text \<open>The bar of 2 January in the chart of the example log.\<close>

theorem bin_value_is_drill_down_length_witness:
  "example_day \<in> set (chartData example_host 0 All_entries (storedValue (log_hook logged_App))) \<and>
   value_bin example_day = 2 \<and>
   length (dayEntries example_host (fullDate example_day) (storedValue (log_hook logged_App))) = 2"
proof -
  have l: "storedValue (log_hook logged_App) = example_log"
    by (simp add: logged_App_def)
  have m: "example_day \<in> set (chartData example_host 0 All_entries (storedValue (log_hook logged_App)))"
    by (simp only: l chartData_example) simp
  have v: "value_bin example_day = 2"
    by (simp add: example_day_def)
  from bin_value_is_drill_down_length [of example_host 0 logged_App] m
  have "length (dayEntries example_host (fullDate example_day) (storedValue (log_hook logged_App))) =
      value_bin example_day"
    by blast
  with v have "length (dayEntries example_host (fullDate example_day) (storedValue (log_hook logged_App))) = 2"
    by simp
  with m v show ?thesis by (intro conjI)
qed

section \<open>Copying the log\<close>

lemma split_on_nonempty: "split_on c s \<noteq> []"
  by (induction s) auto

lemma split_on_append:
  "c \<notin> set l \<Longrightarrow> split_on c (l @ c # r) = l # split_on c r"
  by (induction l) auto

lemma split_on_single: "c \<notin> set l \<Longrightarrow> split_on c l = [l]"
  by (induction l) auto

lemma split_on_join:
  "ls \<noteq> [] \<Longrightarrow> \<forall>l \<in> set ls. c \<notin> set l \<Longrightarrow> split_on c (join [c] ls) = ls"
proof (induction "[c]" ls rule: join.induct)
  case 1
  then show ?case by simp
next
  case (2 x)
  then show ?case by (simp add: split_on_single)
next
  case (3 x y ys)
  then show ?case by (simp add: split_on_append)
qed

lemma handleLogUrination_run_two:
  "storedValue (log_hook a) = [] \<Longrightarrow>
   storedValue (log_hook (snd (handleLogUrination_run J [(i2, t2), (i1, t1)] a))) =
     [\<lparr>id_entry = i1, timestamp = t1\<rparr>, \<lparr>id_entry = i2, timestamp = t2\<rparr>]"
  by (simp only: handleLogUrination_run_storedValue) simp

lemma entry_line_examples:
  "map (entry_line example_host) example_log =
     [''1970-01-02 - 01:00:00'', ''1970-01-02 - 00:00:00'', ''1970-01-01 - 00:00:05'']"
  by code_simp

text \<open>
  Claim C7. On an empty log \<^verbatim>\<open>handleCopyToClipboard\<close> raises the notification that there
  is nothing to copy and changes nothing else. On a non-empty log the text handed to the
  clipboard is \<^verbatim>\<open>textToCopy\<close>: the lines \<open>full date - time\<close> of the entries, in the order
  of the log, joined by line feeds; when no formatted line contains a line feed, its
  lines are exactly those, one per entry. For two entries it is the line of the first,
  a line feed, and the line of the second; after two appends to the empty log, stamped
  \<open>t2\<close> and then \<open>t1\<close>, the line of \<open>t1\<close> comes first. The log is never changed.
\<close>

theorem export_as_text:
  "(storedValue (log_hook a) = [] \<longrightarrow>
      handleCopyToClipboard H written a = a\<lparr>toastMessage := Some No_hay_nada_que_copiar\<rparr>) \<and>
   (storedValue (log_hook a) \<noteq> [] \<longrightarrow>
      handleCopyToClipboard H True a =
        a\<lparr>clipboard := Some (textToCopy H (storedValue (log_hook a))),
          toastMessage := Some Copiado_al_portapapeles\<rparr> \<and>
      handleCopyToClipboard H False a = a\<lparr>toastMessage := Some Error_al_copiar\<rparr>) \<and>
   log_hook (handleCopyToClipboard H written a) = log_hook a \<and>
   entry_line H e =
     DateTimeFormat H DateStyle_full (timestamp e) @ '' - '' @
     DateTimeFormat H TimeStyle_medium (timestamp e) \<and>
   (entries \<noteq> [] \<and> (\<forall>x \<in> set entries. CHR 0x0A \<notin> set (entry_line H x)) \<longrightarrow>
      text_lines (textToCopy H entries) = map (entry_line H) entries) \<and>
   textToCopy H [e1, e2] = entry_line H e1 @ [CHR 0x0A] @ entry_line H e2 \<and>
   (storedValue (log_hook a) = [] \<longrightarrow>
      textToCopy H (storedValue (log_hook (snd (handleLogUrination_run J [(i2, t2), (i1, t1)] a)))) =
        entry_line H \<lparr>id_entry = i1, timestamp = t1\<rparr> @ [CHR 0x0A] @
        entry_line H \<lparr>id_entry = i2, timestamp = t2\<rparr>)"
proof -
  have a: "storedValue (log_hook a) = [] \<longrightarrow>
      handleCopyToClipboard H written a = a\<lparr>toastMessage := Some No_hay_nada_que_copiar\<rparr>"
    by (simp add: handleCopyToClipboard_def showToast_def)
  have b: "storedValue (log_hook a) \<noteq> [] \<longrightarrow>
      handleCopyToClipboard H True a =
        a\<lparr>clipboard := Some (textToCopy H (storedValue (log_hook a))),
          toastMessage := Some Copiado_al_portapapeles\<rparr> \<and>
      handleCopyToClipboard H False a = a\<lparr>toastMessage := Some Error_al_copiar\<rparr>"
    by (simp add: handleCopyToClipboard_def showToast_def Let_def)
  have c: "log_hook (handleCopyToClipboard H written a) = log_hook a"
    by (simp add: handleCopyToClipboard_def showToast_def Let_def)
  have d: "entry_line H e =
     DateTimeFormat H DateStyle_full (timestamp e) @ '' - '' @
     DateTimeFormat H TimeStyle_medium (timestamp e)"
    by (simp add: entry_line_def formatTimestamp_def)
  have e: "entries \<noteq> [] \<and> (\<forall>x \<in> set entries. CHR 0x0A \<notin> set (entry_line H x)) \<longrightarrow>
      text_lines (textToCopy H entries) = map (entry_line H) entries"
    unfolding text_lines_def textToCopy_def by (auto intro!: split_on_join)
  have f: "textToCopy H [e1, e2] = entry_line H e1 @ [CHR 0x0A] @ entry_line H e2"
    by (simp add: textToCopy_def)
  have g: "storedValue (log_hook a) = [] \<longrightarrow>
      textToCopy H (storedValue (log_hook (snd (handleLogUrination_run J [(i2, t2), (i1, t1)] a)))) =
        entry_line H \<lparr>id_entry = i1, timestamp = t1\<rparr> @ [CHR 0x0A] @
        entry_line H \<lparr>id_entry = i2, timestamp = t2\<rparr>"
  proof
    assume "storedValue (log_hook a) = []"
    from handleLogUrination_run_two [OF this, of J i2 t2 i1 t1]
    show "textToCopy H (storedValue (log_hook (snd (handleLogUrination_run J [(i2, t2), (i1, t1)] a)))) =
        entry_line H \<lparr>id_entry = i1, timestamp = t1\<rparr> @ [CHR 0x0A] @
        entry_line H \<lparr>id_entry = i2, timestamp = t2\<rparr>"
      by (simp only: textToCopy_def) simp
  qed
  from a b c d e f g show ?thesis by (intro conjI)
qed

text \<open>The empty log, and the example log of three entries.\<close>

theorem export_as_text_witness:
  "storedValue (log_hook example_App) = [] \<and>
   handleCopyToClipboard example_host True example_App =
     example_App\<lparr>toastMessage := Some No_hay_nada_que_copiar\<rparr> \<and>
   storedValue (log_hook logged_App) \<noteq> [] \<and>
   clipboard (handleCopyToClipboard example_host True logged_App) =
     Some (''1970-01-02 - 01:00:00'' @ [CHR 0x0A] @ ''1970-01-02 - 00:00:00'' @ [CHR 0x0A] @
           ''1970-01-01 - 00:00:05'') \<and>
   list_all (\<lambda>x. CHR 0x0A \<notin> set (entry_line example_host x)) example_log \<and>
   text_lines (textToCopy example_host example_log) =
     [''1970-01-02 - 01:00:00'', ''1970-01-02 - 00:00:00'', ''1970-01-01 - 00:00:05'']"
proof -
  note t1 = export_as_text [of example_App example_host True]
  note t2 = export_as_text [of logged_App example_host True _ example_log]
  have h1: "storedValue (log_hook example_App) = []"
    by (simp add: example_App_def)
  from t1 h1 have a: "handleCopyToClipboard example_host True example_App =
     example_App\<lparr>toastMessage := Some No_hay_nada_que_copiar\<rparr>"
    by blast
  have l: "storedValue (log_hook logged_App) = example_log"
    by (simp add: logged_App_def)
  have h2: "storedValue (log_hook logged_App) \<noteq> []"
    by (simp add: l example_log_def)
  from t2 h2 have "handleCopyToClipboard example_host True logged_App =
        logged_App\<lparr>clipboard := Some (textToCopy example_host (storedValue (log_hook logged_App))),
          toastMessage := Some Copiado_al_portapapeles\<rparr>"
    by blast
  then have "clipboard (handleCopyToClipboard example_host True logged_App) =
      Some (textToCopy example_host example_log)"
    by (simp add: l)
  then have b: "clipboard (handleCopyToClipboard example_host True logged_App) =
     Some (''1970-01-02 - 01:00:00'' @ [CHR 0x0A] @ ''1970-01-02 - 00:00:00'' @ [CHR 0x0A] @
           ''1970-01-01 - 00:00:05'')"
    by (simp add: textToCopy_def entry_line_examples)
  have n: "list_all (\<lambda>x. CHR 0x0A \<notin> set x) (map (entry_line example_host) example_log)"
    by (simp only: entry_line_examples) simp
  then have n1: "list_all (\<lambda>x. CHR 0x0A \<notin> set (entry_line example_host x)) example_log"
    by (simp add: list_all_iff)
  then have n2: "\<forall>x \<in> set example_log. CHR 0x0A \<notin> set (entry_line example_host x)"
    by (simp only: list_all_iff)
  have ne: "example_log \<noteq> []"
    by (simp add: example_log_def)
  from t2 ne n2 have "text_lines (textToCopy example_host example_log) =
      map (entry_line example_host) example_log"
    by blast
  then have c: "text_lines (textToCopy example_host example_log) =
     [''1970-01-02 - 01:00:00'', ''1970-01-02 - 00:00:00'', ''1970-01-01 - 00:00:05'']"
    by (simp only: entry_line_examples)
  from h1 a h2 b n1 c show ?thesis by (intro conjI)
qed

section \<open>The list view\<close>

lemma bucket_push_entry:
  "bucket (push_entry d e acc) k =
     (if k = d then Some ((case bucket acc k of None \<Rightarrow> [] | Some es \<Rightarrow> es) @ [e])
      else bucket acc k)"
  by (induction d e acc rule: push_entry.induct) (auto simp: bucket_def)

lemma keys_push_entry: "fst ` set (push_entry d e acc) = insert d (fst ` set acc)"
  by (induction d e acc rule: push_entry.induct) auto

lemma distinct_push_entry:
  "distinct (map fst acc) \<Longrightarrow> distinct (map fst (push_entry d e acc))"
proof (induction d e acc rule: push_entry.induct)
  case (1 d e)
  show ?case by simp
next
  case (2 d e k es acc)
  show ?case
  proof (cases "k = d")
    case True
    with "2.prems" show ?thesis by simp
  next
    case False
    with "2.prems" "2.IH" have "distinct (map fst (push_entry d e acc))" by simp
    moreover from False "2.prems" have "k \<notin> fst ` set (push_entry d e acc)"
      by (simp add: keys_push_entry)
    ultimately show ?thesis using False by simp
  qed
qed

lemma mset_concat_push_entry:
  "mset (concat (map snd (push_entry d e acc))) = mset (concat (map snd acc)) + {#e#}"
  by (induction d e acc rule: push_entry.induct) auto

lemma grouped_by_step:
  assumes "grouped_by f es acc"
  shows "grouped_by f (es @ [e]) (push_entry (f e) e acc)"
proof -
  from assms have d: "distinct (map fst acc)" and k: "fst ` set acc = f ` set es"
    and b: "\<And>k. bucket acc k = (if k \<in> f ` set es then Some (filter (\<lambda>e. f e = k) es) else None)"
    by (simp_all add: grouped_by_def)
  have "distinct (map fst (push_entry (f e) e acc))"
    using d by (rule distinct_push_entry)
  moreover have "fst ` set (push_entry (f e) e acc) = f ` set (es @ [e])"
    using k by (auto simp: keys_push_entry)
  moreover have "\<And>k. bucket (push_entry (f e) e acc) k =
      (if k \<in> f ` set (es @ [e]) then Some (filter (\<lambda>x. f x = k) (es @ [e])) else None)"
  proof -
    fix k
    have "f e \<notin> f ` set es \<Longrightarrow> filter (\<lambda>x. f x = f e) es = []"
      unfolding filter_empty_conv by (metis imageI)
    then show "bucket (push_entry (f e) e acc) k =
      (if k \<in> f ` set (es @ [e]) then Some (filter (\<lambda>x. f x = k) (es @ [e])) else None)"
      by (auto simp: bucket_push_entry b)
  qed
  ultimately show ?thesis by (simp add: grouped_by_def)
qed

lemma grouped_by_foldl:
  "grouped_by f es acc \<Longrightarrow>
   grouped_by f (es @ xs) (foldl (\<lambda>acc entry. push_entry (f entry) entry acc) acc xs)"
proof (induction xs arbitrary: es acc)
  case Nil
  then show ?case by simp
next
  case (Cons x xs)
  from Cons.IH [OF grouped_by_step [OF Cons.prems, of x]] show ?case by simp
qed

lemma groupedEntries_grouped: "grouped_by (day_heading H) es (groupedEntries H es)"
proof -
  have "grouped_by (day_heading H) [] []" by (simp add: grouped_by_def bucket_def)
  from grouped_by_foldl [OF this, of es] show ?thesis by (simp add: groupedEntries_def)
qed

lemma groupedEntries_distinct: "distinct (map fst (groupedEntries H es))"
  using groupedEntries_grouped [of H es] by (simp add: grouped_by_def)

lemma groupedEntries_keys: "set (map fst (groupedEntries H es)) = day_heading H ` set es"
  using groupedEntries_grouped [of H es] by (simp add: grouped_by_def)

lemma groupedEntries_bucket:
  "d \<in> day_heading H ` set es \<Longrightarrow>
   bucket (groupedEntries H es) d = Some (filter (\<lambda>e. day_heading H e = d) es)"
  using groupedEntries_grouped [of H es] by (simp add: grouped_by_def)

lemma groupedEntries_nonempty:
  assumes "(d, b) \<in> set (groupedEntries H es)"
  shows "b \<noteq> []"
proof -
  from assms have m: "bucket (groupedEntries H es) d = Some b"
    using groupedEntries_distinct [of H es] by (simp add: bucket_def)
  from assms have "d \<in> set (map fst (groupedEntries H es))" by force
  then have k: "d \<in> day_heading H ` set es" by (simp only: groupedEntries_keys)
  with m groupedEntries_bucket [OF k] have "b = filter (\<lambda>e. day_heading H e = d) es" by simp
  with k show ?thesis by (auto simp: filter_empty_conv)
qed

lemma mset_concat_groupedEntries: "mset (concat (map snd (groupedEntries H es))) = mset es"
proof -
  have "\<And>acc. mset (concat (map snd (foldl (\<lambda>acc entry. push_entry (day_heading H entry) entry acc) acc es))) =
      mset (concat (map snd acc)) + mset es"
  proof (induction es)
    case Nil
    show ?case by simp
  next
    case (Cons e es)
    show ?case by (simp add: Cons.IH mset_concat_push_entry)
  qed
  from this [of "[]"] show ?thesis by (simp add: groupedEntries_def)
qed

lemma sorted_wrt_distinct_mono:
  "distinct xs \<Longrightarrow> sorted_wrt R xs \<Longrightarrow>
   (\<And>x y. x \<in> set xs \<Longrightarrow> y \<in> set xs \<Longrightarrow> x \<noteq> y \<Longrightarrow> R x y \<Longrightarrow> Q x y) \<Longrightarrow>
   sorted_wrt Q xs"
  by (induction xs) auto

lemma sort_descending_props:
  "set (sort_descending f xs) = set xs"
  "mset (sort_descending f xs) = mset xs"
  "distinct (sort_descending f xs) = distinct xs"
  "sorted_wrt (\<lambda>x y. f x \<ge> f y) (sort_descending f xs)"
proof -
  show "set (sort_descending f xs) = set xs" by (simp add: sort_descending_def)
  show "mset (sort_descending f xs) = mset xs" by (simp add: sort_descending_def)
  show "distinct (sort_descending f xs) = distinct xs" by (simp add: sort_descending_def)
  have "sorted (map (\<lambda>x. - f x) (sort_key (\<lambda>x. - f x) xs))" by (rule sorted_sort_key)
  then show "sorted_wrt (\<lambda>x y. f x \<ge> f y) (sort_descending f xs)"
    by (simp add: sort_descending_def sorted_wrt_map)
qed

lemma hd_sort_descending:
  assumes "xs \<noteq> []"
  shows "hd (sort_descending f xs) \<in> set xs \<and> (\<forall>x \<in> set xs. f x \<le> f (hd (sort_descending f xs)))"
proof -
  from assms have "set (sort_descending f xs) \<noteq> {}" by (simp add: sort_descending_props)
  then obtain y ys where s: "sort_descending f xs = y # ys" by (cases "sort_descending f xs") auto
  from sort_descending_props(4) [of f xs] s have "\<forall>x \<in> set ys. f x \<le> f y" by simp
  moreover from s have "set xs = insert y (set ys)"
    using sort_descending_props(1) [of f xs] by simp
  ultimately show ?thesis using s by auto
qed

lemma bucket_groupedEntries:
  assumes "d \<in> set (map fst (groupedEntries H es))"
  shows "the (bucket (groupedEntries H es) d) = filter (\<lambda>e. day_heading H e = d) es"
    and "filter (\<lambda>e. day_heading H e = d) es \<noteq> []"
proof -
  from assms have k: "d \<in> day_heading H ` set es" by (simp only: groupedEntries_keys)
  from groupedEntries_bucket [OF k]
  show "the (bucket (groupedEntries H es) d) = filter (\<lambda>e. day_heading H e = d) es" by simp
  from k show "filter (\<lambda>e. day_heading H e = d) es \<noteq> []"
    by (auto simp: filter_empty_conv)
qed

lemma hd_bucket:
  assumes "d \<in> set (map fst (groupedEntries H es))"
  shows "hd (filter (\<lambda>e. day_heading H e = d) es) \<in> set (filter (\<lambda>e. day_heading H e = d) es)"
  using bucket_groupedEntries(2) [OF assms] by (rule hd_in_set)

lemma sortedDates_props:
  "set (sortedDates acc) = set (map fst acc)"
  "mset (sortedDates acc) = mset (map fst acc)"
  "distinct (sortedDates acc) = distinct (map fst acc)"
  "sorted_wrt (\<lambda>x y. first_timestamp acc x \<ge> first_timestamp acc y) (sortedDates acc)"
  unfolding sortedDates_def by (rule sort_descending_props)+

lemma LogList_eq:
  "LogList H es =
     map (\<lambda>d. (d, sort_descending timestamp (filter (\<lambda>e. day_heading H e = d) es)))
       (sortedDates (groupedEntries H es))"
  unfolding LogList_def Let_def
  by (rule map_cong) (simp_all add: sortedDates_props bucket_groupedEntries del: set_map)

lemma LogList_keys: "map fst (LogList H es) = sortedDates (groupedEntries H es)"
  by (simp add: LogList_eq comp_def)

lemma day_heading_timestamp:
  "timestamp a = timestamp b \<Longrightarrow> day_heading H a = day_heading H b"
  by (simp add: day_heading_def)

lemma first_timestamp_strict:
  assumes "x \<in> set (map fst (groupedEntries H es))" "y \<in> set (map fst (groupedEntries H es))"
    and "x \<noteq> y"
    and "first_timestamp (groupedEntries H es) x \<ge> first_timestamp (groupedEntries H es) y"
  shows "first_timestamp (groupedEntries H es) x > first_timestamp (groupedEntries H es) y"
proof -
  let ?B = "\<lambda>d. filter (\<lambda>e. day_heading H e = d) es"
  note x = hd_bucket [OF assms(1)] and y = hd_bucket [OF assms(2)]
  from bucket_groupedEntries(1) [OF assms(1)]
  have fx: "first_timestamp (groupedEntries H es) x = timestamp (hd (?B x))"
    by (simp add: first_timestamp_def)
  from bucket_groupedEntries(1) [OF assms(2)]
  have fy: "first_timestamp (groupedEntries H es) y = timestamp (hd (?B y))"
    by (simp add: first_timestamp_def)
  from x have kx: "day_heading H (hd (?B x)) = x" by simp
  from y have ky: "day_heading H (hd (?B y)) = y" by simp
  have "timestamp (hd (?B x)) \<noteq> timestamp (hd (?B y))"
  proof
    assume "timestamp (hd (?B x)) = timestamp (hd (?B y))"
    from day_heading_timestamp [OF this, of H] kx ky assms(3) show False by simp
  qed
  with assms(4) fx fy show ?thesis by simp
qed

lemma days_convex_D:
  assumes "days_convex H es" "a \<in> set es" "b \<in> set es" "c \<in> set es"
    and "timestamp a \<le> timestamp b" "timestamp b \<le> timestamp c"
    and "day_heading H a = day_heading H c"
  shows "day_heading H b = day_heading H a"
  using assms unfolding days_convex_def list_all_iff by blast

lemma latest_strict:
  assumes c: "days_convex H es"
    and x: "x \<in> set (map fst (groupedEntries H es))"
    and y: "y \<in> set (map fst (groupedEntries H es))"
    and ne: "x \<noteq> y"
    and le: "first_timestamp (groupedEntries H es) x \<ge> first_timestamp (groupedEntries H es) y"
  shows "timestamp (hd (sort_descending timestamp (filter (\<lambda>e. day_heading H e = x) es))) >
         timestamp (hd (sort_descending timestamp (filter (\<lambda>e. day_heading H e = y) es)))"
proof -
  let ?B = "\<lambda>d. filter (\<lambda>e. day_heading H e = d) es"
  let ?L = "\<lambda>d. hd (sort_descending timestamp (?B d))"
  from first_timestamp_strict [OF x y ne le]
  have lt: "first_timestamp (groupedEntries H es) x > first_timestamp (groupedEntries H es) y" .
  note x0 = hd_bucket [OF x] and y0 = hd_bucket [OF y]
  note nx = bucket_groupedEntries(2) [OF x] and ny = bucket_groupedEntries(2) [OF y]
  from bucket_groupedEntries(1) [OF x]
  have fx: "first_timestamp (groupedEntries H es) x = timestamp (hd (?B x))"
    by (simp add: first_timestamp_def)
  from bucket_groupedEntries(1) [OF y]
  have fy: "first_timestamp (groupedEntries H es) y = timestamp (hd (?B y))"
    by (simp add: first_timestamp_def)
  from hd_sort_descending [OF nx, of timestamp]
  have lx: "?L x \<in> set (?B x)" "timestamp (hd (?B x)) \<le> timestamp (?L x)"
    using x0 by blast+
  from hd_sort_descending [OF ny, of timestamp]
  have ly: "?L y \<in> set (?B y)" "timestamp (hd (?B y)) \<le> timestamp (?L y)"
    using y0 by blast+
  show ?thesis
  proof (rule ccontr)
    assume "\<not> timestamp (?L x) > timestamp (?L y)"
    then have 1: "timestamp (hd (?B x)) \<le> timestamp (?L y)" using lx(2) by simp
    from lt fx fy have 2: "timestamp (hd (?B y)) \<le> timestamp (hd (?B x))" by simp
    from y0 ly(1) have 3: "day_heading H (hd (?B y)) = day_heading H (?L y)" by simp
    from y0 have m1: "hd (?B y) \<in> set es" by simp
    from x0 have m2: "hd (?B x) \<in> set es" by simp
    from ly(1) have m3: "?L y \<in> set es" by simp
    from days_convex_D [OF c m1 m2 m3 2 1 3]
    have "day_heading H (hd (?B x)) = day_heading H (hd (?B y))" .
    with x0 y0 ne show False by simp
  qed
qed

lemma groupedEntries_member:
  assumes "(d, b) \<in> set (groupedEntries H es)"
  shows "b = filter (\<lambda>e. day_heading H e = d) es"
proof -
  from assms have "bucket (groupedEntries H es) d = Some b"
    using groupedEntries_distinct [of H es] by (simp add: bucket_def)
  moreover from assms have "d \<in> set (map fst (groupedEntries H es))" by force
  ultimately show ?thesis using bucket_groupedEntries(1) [of d H es] by simp
qed

lemma mset_concat_LogList: "mset (concat (map snd (LogList H es))) = mset es"
proof -
  let ?G = "groupedEntries H es"
  let ?h = "\<lambda>d. mset (filter (\<lambda>e. day_heading H e = d) es)"
  have "mset (concat (map snd (LogList H es))) = sum_list (map ?h (sortedDates ?G))"
    by (simp add: mset_concat LogList_eq comp_def sort_descending_props)
  also have "\<dots> = sum_mset (image_mset ?h (mset (sortedDates ?G)))"
    by (simp only: sum_mset_sum_list [symmetric] mset_map)
  also have "\<dots> = sum_mset (image_mset ?h (mset (map fst ?G)))"
    by (simp only: sortedDates_props)
  also have "\<dots> = sum_list (map ?h (map fst ?G))"
    by (simp only: sum_mset_sum_list [symmetric] mset_map)
  also have "\<dots> = sum_list (map (\<lambda>p. mset (snd p)) ?G)"
  proof -
    have "map ?h (map fst ?G) = map (\<lambda>p. mset (snd p)) ?G"
      unfolding map_map by (rule map_cong) (auto dest!: groupedEntries_member)
    then show ?thesis by (rule arg_cong)
  qed
  also have "\<dots> = mset (concat (map snd ?G))"
    by (simp add: mset_concat comp_def)
  also have "\<dots> = mset es"
    by (rule mset_concat_groupedEntries)
  finally show ?thesis .
qed

text \<open>
  Claim C2. The list view is a partition of the log by day. The days shown are distinct
  and are exactly the days of the entries; the bucket of a day is not empty, holds exactly
  the entries of that day (each as often as the log has it), newest first, so its first
  entry is its latest; the buckets together are a permutation of the log. The days are
  in the order of \<^verbatim>\<open>sortedDates\<close>: strictly descending in the timestamp of the entry that
  the log has first for each day, not in the order of the headings. When the formatted
  days are calendar days, that is the descending order of the timestamps of the first,
  latest, entries of the buckets shown.
\<close>

theorem group_by_day_partition:
  "distinct (map fst (LogList H entries)) \<and>
   set (map fst (LogList H entries)) = day_heading H ` set entries \<and>
   (\<forall>(d, b) \<in> set (LogList H entries).
      b \<noteq> [] \<and>
      mset b = filter_mset (\<lambda>e. day_heading H e = d) (mset entries) \<and>
      sorted_wrt (\<lambda>x y. timestamp x \<ge> timestamp y) b \<and>
      (\<forall>e \<in> set b. timestamp e \<le> timestamp (hd b))) \<and>
   mset (concat (map snd (LogList H entries))) = mset entries \<and>
   map fst (LogList H entries) = sortedDates (groupedEntries H entries) \<and>
   (\<forall>d \<in> day_heading H ` set entries.
      first_timestamp (groupedEntries H entries) d =
        timestamp (hd (filter (\<lambda>e. day_heading H e = d) entries))) \<and>
   sorted_wrt (\<lambda>x y. first_timestamp (groupedEntries H entries) x >
                      first_timestamp (groupedEntries H entries) y)
     (map fst (LogList H entries)) \<and>
   (days_convex H entries \<longrightarrow>
      sorted_wrt (\<lambda>p q. timestamp (hd (snd p)) > timestamp (hd (snd q))) (LogList H entries))"
proof -
  let ?G = "groupedEntries H entries"
  let ?B = "\<lambda>d. filter (\<lambda>e. day_heading H e = d) entries"
  let ?F = "first_timestamp ?G"
  have keys: "map fst (LogList H entries) = sortedDates ?G"
    by (rule LogList_keys)
  have a: "distinct (map fst (LogList H entries))"
    by (simp only: keys sortedDates_props groupedEntries_distinct)
  have b: "set (map fst (LogList H entries)) = day_heading H ` set entries"
    by (simp only: keys sortedDates_props groupedEntries_keys)
  have c: "\<forall>(d, b) \<in> set (LogList H entries).
      b \<noteq> [] \<and>
      mset b = filter_mset (\<lambda>e. day_heading H e = d) (mset entries) \<and>
      sorted_wrt (\<lambda>x y. timestamp x \<ge> timestamp y) b \<and>
      (\<forall>e \<in> set b. timestamp e \<le> timestamp (hd b))"
  proof (intro ballI, clarify)
    fix d b
    assume "(d, b) \<in> set (LogList H entries)"
    then have "d \<in> set (sortedDates ?G)" and b: "b = sort_descending timestamp (?B d)"
      by (auto simp: LogList_eq)
    then have d: "d \<in> set (map fst ?G)"
      by (simp only: sortedDates_props)
    note ne = bucket_groupedEntries(2) [OF d]
    from ne have 1: "b \<noteq> []"
      unfolding b using sort_descending_props(1) [of timestamp "?B d"] by auto
    have 2: "mset b = filter_mset (\<lambda>e. day_heading H e = d) (mset entries)"
      unfolding b by (simp add: sort_descending_props)
    have 3: "sorted_wrt (\<lambda>x y. timestamp x \<ge> timestamp y) b"
      unfolding b by (rule sort_descending_props)
    from hd_sort_descending [OF ne, of timestamp]
    have 4: "\<forall>e \<in> set b. timestamp e \<le> timestamp (hd b)"
      unfolding b by (simp add: sort_descending_props)
    from 1 2 3 4 show "b \<noteq> [] \<and>
      mset b = filter_mset (\<lambda>e. day_heading H e = d) (mset entries) \<and>
      sorted_wrt (\<lambda>x y. timestamp x \<ge> timestamp y) b \<and>
      (\<forall>e \<in> set b. timestamp e \<le> timestamp (hd b))"
      by (intro conjI)
  qed
  have d: "mset (concat (map snd (LogList H entries))) = mset entries"
    by (rule mset_concat_LogList)
  have e: "\<forall>d \<in> day_heading H ` set entries. ?F d = timestamp (hd (?B d))"
  proof
    fix d
    assume "d \<in> day_heading H ` set entries"
    then have "d \<in> set (map fst ?G)" by (simp only: groupedEntries_keys)
    from bucket_groupedEntries(1) [OF this] show "?F d = timestamp (hd (?B d))"
      by (simp add: first_timestamp_def)
  qed
  have dk: "distinct (sortedDates ?G)"
    by (simp only: sortedDates_props groupedEntries_distinct)
  have f: "sorted_wrt (\<lambda>x y. ?F x > ?F y) (map fst (LogList H entries))"
    unfolding keys
  proof (rule sorted_wrt_distinct_mono [OF dk sortedDates_props(4)])
    fix x y
    assume "x \<in> set (sortedDates ?G)" and "y \<in> set (sortedDates ?G)"
      and ne: "x \<noteq> y" and le: "?F x \<ge> ?F y"
    then have x: "x \<in> set (map fst ?G)" and y: "y \<in> set (map fst ?G)"
      by (simp_all only: sortedDates_props)
    show "?F x > ?F y"
      by (rule first_timestamp_strict [OF x y ne le])
  qed
  have g: "days_convex H entries \<longrightarrow>
      sorted_wrt (\<lambda>p q. timestamp (hd (snd p)) > timestamp (hd (snd q))) (LogList H entries)"
  proof
    assume c: "days_convex H entries"
    have "sorted_wrt (\<lambda>x y. timestamp (hd (sort_descending timestamp (?B x))) >
                            timestamp (hd (sort_descending timestamp (?B y)))) (sortedDates ?G)"
    proof (rule sorted_wrt_distinct_mono [OF dk sortedDates_props(4)])
      fix x y
      assume "x \<in> set (sortedDates ?G)" and "y \<in> set (sortedDates ?G)"
        and ne: "x \<noteq> y" and le: "?F x \<ge> ?F y"
      then have x: "x \<in> set (map fst ?G)" and y: "y \<in> set (map fst ?G)"
        by (simp_all only: sortedDates_props)
      show "timestamp (hd (sort_descending timestamp (?B x))) >
                 timestamp (hd (sort_descending timestamp (?B y)))"
        by (rule latest_strict [OF c x y ne le])
    qed
    then show "sorted_wrt (\<lambda>p q. timestamp (hd (snd p)) > timestamp (hd (snd q))) (LogList H entries)"
      by (simp add: LogList_eq sorted_wrt_map)
  qed
  from a b c d keys e f g show ?thesis by (intro conjI)
qed

text \<open>
  The example log in mixed order: the day of the two latest entries comes first, and its
  bucket begins with the latest entry, which the log has last.
\<close>

lemma day_heading_examples:
  "day_heading example_host \<lparr>id_entry = 5000, timestamp = 5000\<rparr> = ''1970-01-01''"
  "day_heading example_host \<lparr>id_entry = 86400000, timestamp = 86400000\<rparr> = ''1970-01-02''"
  "day_heading example_host \<lparr>id_entry = 90000000, timestamp = 90000000\<rparr> = ''1970-01-02''"
  by code_simp+

lemma LogList_example:
  "LogList example_host mixed_log =
     [(''1970-01-02'', [\<lparr>id_entry = 90000000, timestamp = 90000000\<rparr>,
                        \<lparr>id_entry = 86400000, timestamp = 86400000\<rparr>]),
      (''1970-01-01'', [\<lparr>id_entry = 5000, timestamp = 5000\<rparr>])]"
  by (simp add: LogList_def groupedEntries_def mixed_log_def day_heading_examples
      sortedDates_def sort_descending_def first_timestamp_def bucket_def)

theorem group_by_day_partition_witness:
  "days_convex example_host mixed_log \<and>
   LogList example_host mixed_log =
     [(''1970-01-02'', [\<lparr>id_entry = 90000000, timestamp = 90000000\<rparr>,
                        \<lparr>id_entry = 86400000, timestamp = 86400000\<rparr>]),
      (''1970-01-01'', [\<lparr>id_entry = 5000, timestamp = 5000\<rparr>])] \<and>
   mset (concat (map snd (LogList example_host mixed_log))) = mset mixed_log \<and>
   sorted_wrt (\<lambda>p q. timestamp (hd (snd p)) > timestamp (hd (snd q)))
     (LogList example_host mixed_log)"
proof -
  note t = group_by_day_partition [of example_host mixed_log]
  have c: "days_convex example_host mixed_log"
    by (simp add: days_convex_def mixed_log_def day_heading_examples)
  from t have m: "mset (concat (map snd (LogList example_host mixed_log))) = mset mixed_log"
    by blast
  from t c have s: "sorted_wrt (\<lambda>p q. timestamp (hd (snd p)) > timestamp (hd (snd q)))
     (LogList example_host mixed_log)"
    by blast
  from c LogList_example m s show ?thesis by (intro conjI)
qed

end
